theory Spec2Isabelle
  imports Main "HOL-Library.AList" "HOL-Library.Char_ord" "HOL-Library.List_Lexorder"
begin

section \<open>Values and errors\<close>

text \<open>
  The two scripts work on calendar dates, on the cells of tables (CSV columns, PDF table
  cells, spreadsheet cells) and on dictionaries from field names to cells. A raise of the
  source is a value of \<open>error\<close>; a function that can raise returns \<open>error + 'a\<close>.
\<close>

datatype date = Date (year: nat) (month: nat) (day: nat)

datatype cell = VNone | VNaN | VNaT | VStr string | VInt int | VFloat int | VDate date

text \<open>
  \<open>VInt\<close> is an integer as \<open>read_csv\<close> gives it (an int64). \<open>VFloat n\<close> is the float64 whose
  value is the integer \<open>n\<close>: the floats met here are the integers that pandas stores in a
  float64 column. \<open>VNaN\<close> is the float \<open>nan\<close> and \<open>VNaT\<close> is \<open>pd.NaT\<close>.
\<close>

datatype error =
    ValueError | TypeError | KeyError | IndexError | InvalidFileException | FileNotFoundError string

text \<open>A Python dict (and a pandas row) keeps its keys in insertion order: an association
  list, assigned with \<open>AList.update\<close> (in place when the key exists, appended otherwise).\<close>

type_synonym entry = "(string \<times> cell) list"

section \<open>Strings\<close>

definition lower_char :: "char \<Rightarrow> char" where
  "lower_char c =
     (let n = (of_char c :: nat)
      in if (65 \<le> n \<and> n \<le> 90) \<or> (192 \<le> n \<and> n \<le> 222 \<and> n \<noteq> 215) then char_of (n + 32)
         else c)"

definition lower :: "string \<Rightarrow> string" where
  "lower s = map lower_char s"

text \<open>\<open>p in s\<close> on strings\<close>

fun contains :: "string \<Rightarrow> string \<Rightarrow> bool" where
  "contains p [] = (p = [])"
| "contains p (x # xs) = (take (length p) (x # xs) = p \<or> contains p xs)"

text \<open>The white space of \<open>str.strip()\<close> among the code points below 256.\<close>

definition is_space :: "char \<Rightarrow> bool" where
  "is_space c =
     (let n = (of_char c :: nat)
      in (9 \<le> n \<and> n \<le> 13) \<or> (28 \<le> n \<and> n \<le> 32) \<or> n = 133 \<or> n = 160)"

definition strip :: "string \<Rightarrow> string" where
  "strip s = rev (dropWhile is_space (rev (dropWhile is_space s)))"

text \<open>\<open>s.split(c)\<close>: never empty.\<close>

fun split_on :: "char \<Rightarrow> string \<Rightarrow> string list" where
  "split_on c [] = [[]]"
| "split_on c (x # xs) =
     (if x = c then [] # split_on c xs
      else (case split_on c xs of w # ws \<Rightarrow> (x # w) # ws | [] \<Rightarrow> [[x]]))"

section \<open>datetime.date\<close>

text \<open>
  What \<open>date_range\<close> needs of the standard library's \<open>datetime\<close>: the constructor's range
  check (years 1 to 9999), the proleptic Gregorian ordinal behind the difference of two
  dates, the date a number of days later, and \<open>strftime("%Y-%m-%d")\<close>.
\<close>

definition is_leap :: "nat \<Rightarrow> bool" where
  "is_leap y = (y mod 4 = 0 \<and> (y mod 100 \<noteq> 0 \<or> y mod 400 = 0))"

definition days_in_month :: "nat \<Rightarrow> nat \<Rightarrow> nat" where
  "days_in_month y m =
     (if m = 2 then (if is_leap y then 29 else 28)
      else if m = 4 \<or> m = 6 \<or> m = 9 \<or> m = 11 then 30 else 31)"

definition days_in_year :: "nat \<Rightarrow> nat" where
  "days_in_year y = (if is_leap y then 366 else 365)"

definition valid_date :: "date \<Rightarrow> bool" where
  "valid_date d =
     (1 \<le> year d \<and> year d \<le> 9999 \<and> 1 \<le> month d \<and> month d \<le> 12 \<and>
      1 \<le> day d \<and> day d \<le> days_in_month (year d) (month d))"

definition make_date :: "int \<Rightarrow> nat \<Rightarrow> nat \<Rightarrow> error + date" where
  "make_date y m d =
     (if 1 \<le> y \<and> y \<le> 9999 \<and> valid_date (Date (nat y) m d) then Inr (Date (nat y) m d)
      else Inl ValueError)"

definition days_before_year :: "nat \<Rightarrow> nat" where
  "days_before_year y =
     (y - 1) * 365 + (y - 1) div 4 + (y - 1) div 400 - (y - 1) div 100"

definition days_before_month :: "nat \<Rightarrow> nat \<Rightarrow> nat" where
  "days_before_month y m =
     [0, 31, 59, 90, 120, 151, 181, 212, 243, 273, 304, 334] ! (m - 1) +
     (if 2 < m \<and> is_leap y then 1 else 0)"

definition yday :: "date \<Rightarrow> nat" where
  "yday d = days_before_month (year d) (month d) + day d"

definition toordinal :: "date \<Rightarrow> nat" where
  "toordinal d = days_before_year (year d) + yday d"

text \<open>\<open>(b - a).days\<close>\<close>

definition days_between :: "date \<Rightarrow> date \<Rightarrow> int" where
  "days_between a b = int (toordinal b) - int (toordinal a)"

definition next_day :: "date \<Rightarrow> date" where
  "next_day d =
     (if day d < days_in_month (year d) (month d) then Date (year d) (month d) (day d + 1)
      else if month d < 12 then Date (year d) (month d + 1) 1
      else Date (year d + 1) 1 1)"

text \<open>\<open>d + timedelta(days=n)\<close> for \<open>n \<ge> 0\<close>: the date \<open>n\<close> days after \<open>d\<close>.\<close>

primrec add_days :: "date \<Rightarrow> nat \<Rightarrow> date" where
  "add_days d 0 = d"
| "add_days d (Suc n) = next_day (add_days d n)"

text \<open>Python compares dates as the triples (year, month, day).\<close>

definition date_less :: "date \<Rightarrow> date \<Rightarrow> bool" where
  "date_less a b =
     (year a < year b \<or>
      year a = year b \<and> (month a < month b \<or> month a = month b \<and> day a < day b))"

definition digit_char :: "nat \<Rightarrow> char" where
  "digit_char n = char_of (48 + n mod 10)"

definition pad2 :: "nat \<Rightarrow> string" where
  "pad2 n = [digit_char (n div 10), digit_char n]"

definition pad4 :: "nat \<Rightarrow> string" where
  "pad4 n = [digit_char (n div 1000), digit_char (n div 100), digit_char (n div 10), digit_char n]"

text \<open>\<open>day.strftime("%Y-%m-%d")\<close>, for a year of at most four digits.\<close>

definition strftime_ymd :: "date \<Rightarrow> string" where
  "strftime_ymd d = pad4 (year d) @ ''-'' @ pad2 (month d) @ ''-'' @ pad2 (day d)"

text \<open>
  \<open>datetime.strptime(s, "%Y-%m-%d").date()\<close>. The library matches the string against
  \<^verbatim>\<open>(\d\d\d\d)-(1[0-2]|0[1-9]|[1-9])-(3[0-1]|[1-2]\d|0[1-9]|[1-9]| [1-9])\<close>
  and wants the whole string matched: a year of four digits, a month of one or two, and a
  day of one or two digits or of a space and a digit from 1 to 9; the three must be a date
  of the calendar. Anything else is a ValueError.
\<close>

definition is_digit :: "char \<Rightarrow> bool" where
  "is_digit c = (48 \<le> (of_char c :: nat) \<and> (of_char c :: nat) \<le> 57)"

definition digits_val :: "string \<Rightarrow> nat" where
  "digits_val s = fold (\<lambda>c n. 10 * n + (of_char c - 48)) s 0"

text \<open>The digits of the day field: the space of \<open>" 5"\<close> is dropped.\<close>

definition day_field :: "string \<Rightarrow> string" where
  "day_field ds =
     (case ds of
        [sp, c] \<Rightarrow> (if sp = CHR '' '' \<and> is_digit c \<and> c \<noteq> CHR ''0'' then [c] else ds)
      | _ \<Rightarrow> ds)"

definition strptime_ymd :: "string \<Rightarrow> error + date" where
  "strptime_ymd s =
     (case split_on (CHR ''-'') s of
        [ys, ms, ds] \<Rightarrow>
          (if length ys = 4 \<and> (length ms = 1 \<or> length ms = 2) \<and>
              (length (day_field ds) = 1 \<or> length (day_field ds) = 2) \<and>
              list_all is_digit (ys @ ms @ day_field ds) \<and>
              valid_date (Date (digits_val ys) (digits_val ms) (digits_val (day_field ds)))
           then Inr (Date (digits_val ys) (digits_val ms) (digits_val (day_field ds)))
           else Inl ValueError)
      | _ \<Rightarrow> Inl ValueError)"

section \<open>generate_2024_data.py: the calendar\<close>

text \<open>
  \<^verbatim>\<open>
  def date_range(year):
      start = datetime.date(year, 1, 1)
      end = datetime.date(year, 12, 31)
      for n in range((end - start).days + 1):
          yield start + datetime.timedelta(days=n)
  \<close>
  The generator is consumed whole by its only caller, so it is modelled by the list of
  the dates it yields.
\<close>

definition date_range :: "int \<Rightarrow> error + date list" where
  "date_range y =
     (case make_date y 1 1 of
        Inl e \<Rightarrow> Inl e
      | Inr start \<Rightarrow>
          (case make_date y 12 31 of
             Inl e \<Rightarrow> Inl e
           | Inr end \<Rightarrow>
               Inr (map (\<lambda>n. add_days start n) [0 ..< nat (days_between start end + 1)])))"

text \<open>The dates \<open>date_range\<close> yields for a year that \<open>datetime.date\<close> accepts.\<close>

definition year_days :: "nat \<Rightarrow> date list" where
  "year_days y = map (add_days (Date y 1 1)) [0 ..< days_in_year y]"

section \<open>Tables\<close>

text \<open>
  A pandas DataFrame is its column labels and its rows; \<open>iterrows\<close> gives each row as the
  pairs of label and value. \<open>pd.DataFrame(records)\<close> of a list of dicts has the keys as
  columns, in the order in which they first appear, and NaN where a dict lacks a key; each
  column is then given a dtype, which changes some of its values (see
  \<open>convert_object_array\<close> below).
\<close>

record dataframe =
  columns :: "string list"
  rows :: "cell list list"

definition iterrows :: "dataframe \<Rightarrow> entry list" where
  "iterrows df = map (\<lambda>r. zip (columns df) r) (rows df)"

fun first_seen :: "'a list \<Rightarrow> 'a list \<Rightarrow> 'a list" where
  "first_seen seen [] = []"
| "first_seen seen (x # xs) =
     (if x \<in> set seen then first_seen seen xs else x # first_seen (x # seen) xs)"

text \<open>The float64 nearest to an integer, ties to the even mantissa of 53 bits: what the
  cast of an int64 to float64 gives.\<close>

fun bit_length :: "nat \<Rightarrow> nat" where
  "bit_length n = (if n = 0 then 0 else Suc (bit_length (n div 2)))"

declare bit_length.simps [simp del]

definition float64_of_int :: "int \<Rightarrow> int" where
  "float64_of_int n =
     (let a = nat \<bar>n\<bar>
      in if a < 2 ^ 53 then n
         else (let e = bit_length a - 53;
                   q = a div 2 ^ e;
                   r = a mod 2 ^ e;
                   h = 2 ^ (e - 1);
                   q' = (if h < r \<or> (r = h \<and> odd q) then q + 1 else q)
               in sgn n * int (q' * 2 ^ e)))"

text \<open>
  The dtype of a column of Python objects (\<open>convert_object_array\<close> in pandas 2, by
  \<open>lib.maybe_convert_objects\<close> and \<open>maybe_infer_to_datetimelike\<close>), for the values of
  \<open>cell\<close>:
  \<^item> a column with a string or a \<open>datetime.date\<close> keeps the dtype \<open>object\<close> and its values;
  \<^item> a column of \<open>NaT\<close> with at most \<open>None\<close> and \<open>nan\<close> besides becomes datetime64, all
    \<open>NaT\<close>; \<open>NaT\<close> among numbers stays \<open>object\<close>;
  \<^item> a column of \<open>None\<close> only stays \<open>object\<close>, a column of integers only is int64;
  \<^item> any other column (integers, floats, \<open>nan\<close>, \<open>None\<close>) is float64: the integers
    become floats and \<open>None\<close> becomes \<open>nan\<close>.
\<close>

definition is_object :: "cell \<Rightarrow> bool" where
  "is_object v = (case v of VStr s \<Rightarrow> True | VDate d \<Rightarrow> True | _ \<Rightarrow> False)"

definition is_number :: "cell \<Rightarrow> bool" where
  "is_number v = (case v of VInt n \<Rightarrow> True | VFloat n \<Rightarrow> True | _ \<Rightarrow> False)"

definition is_int :: "cell \<Rightarrow> bool" where
  "is_int v = (case v of VInt n \<Rightarrow> True | _ \<Rightarrow> False)"

definition to_float :: "cell \<Rightarrow> cell" where
  "to_float v = (case v of VInt n \<Rightarrow> VFloat (float64_of_int n) | VNone \<Rightarrow> VNaN | _ \<Rightarrow> v)"

definition convert_object_array :: "cell list \<Rightarrow> cell list" where
  "convert_object_array arr =
     (if list_ex is_object arr then arr
      else if list_ex (\<lambda>v. v = VNaT) arr
      then (if list_ex is_number arr then arr else map (\<lambda>v. VNaT) arr)
      else if list_all (\<lambda>v. v = VNone) arr \<or> list_all is_int arr then arr
      else map to_float arr)"

definition DataFrame :: "entry list \<Rightarrow> dataframe" where
  "DataFrame records =
     (let cols = first_seen [] (concat (map (map fst) records));
          column = (\<lambda>c. convert_object_array
                          (map (\<lambda>e. case map_of e c of Some v \<Rightarrow> v | None \<Rightarrow> VNaN) records))
      in \<lparr>columns = cols,
          rows = map (\<lambda>i. map (\<lambda>c. column c ! i) cols) [0 ..< length records]\<rparr>)"

text \<open>\<open>pd.notnull\<close>\<close>

definition notnull :: "cell \<Rightarrow> bool" where
  "notnull v = (v \<noteq> VNone \<and> v \<noteq> VNaN \<and> v \<noteq> VNaT)"

text \<open>\<open>df[c] = values\<close>: an existing column is replaced where it stands, a new one is
  appended.\<close>

definition set_column :: "string \<Rightarrow> cell list \<Rightarrow> dataframe \<Rightarrow> dataframe" where
  "set_column c vs df =
     (if c \<in> set (columns df)
      then df\<lparr>rows := map (\<lambda>(r, v). map (\<lambda>(k, x). if k = c then v else x) (zip (columns df) r))
                          (zip (rows df) vs)\<rparr>
      else df\<lparr>columns := columns df @ [c], rows := map (\<lambda>(r, v). r @ [v]) (zip (rows df) vs)\<rparr>)"

section \<open>generate_2024_data.py: the two parsers\<close>

text \<open>
  \<open>pd.to_datetime(x, dayfirst=True, errors='coerce')\<close> is the library's: the parsers take
  it as the parameter \<open>to_datetime\<close>, and what is proved of them holds for every such
  function. In \<open>parse_csv\<close> it converts a column, and \<open>.dt.date\<close> gives for each cell the
  calendar date, or \<open>NaT\<close> for a cell that is no date: the parameter gives the date, or
  \<open>None\<close> for \<open>NaT\<close>.

  \<^verbatim>\<open>
  def parse_csv(csv_path):
      df = pd.read_csv(csv_path)
      date_col = next((c for c in df.columns if "date" in c.lower()), df.columns[0])
      df['Date'] = pd.to_datetime(df[date_col], dayfirst=True, errors='coerce').dt.date
      flights = {row['Date']: row for _, row in df.iterrows() if pd.notnull(row['Date'])}
      return flights
  \<close>
  The model starts from the table \<open>read_csv\<close> returns.
\<close>

definition date_cell :: "date option \<Rightarrow> cell" where
  "date_cell p = (case p of Some d \<Rightarrow> VDate d | None \<Rightarrow> VNaT)"

definition column_values :: "string \<Rightarrow> dataframe \<Rightarrow> cell list" where
  "column_values c df =
     map (\<lambda>r. case map_of (zip (columns df) r) c of Some v \<Rightarrow> v | None \<Rightarrow> VNaN) (rows df)"

definition index_flights :: "entry list \<Rightarrow> (date \<rightharpoonup> entry)" where
  "index_flights rs =
     fold (\<lambda>row flights.
             case map_of row ''Date'' of
               None \<Rightarrow> flights
             | Some v \<Rightarrow>
                 (if notnull v then (case v of VDate d \<Rightarrow> flights(d \<mapsto> row) | _ \<Rightarrow> flights)
                  else flights)) rs Map.empty"

definition parse_csv :: "(cell \<Rightarrow> date option) \<Rightarrow> dataframe \<Rightarrow> error + (date \<rightharpoonup> entry)" where
  "parse_csv to_datetime df =
     (case (case find (\<lambda>c. contains ''date'' (lower c)) (columns df) of
              Some c \<Rightarrow> Inr c
            | None \<Rightarrow> (case columns df of [] \<Rightarrow> Inl IndexError | c # _ \<Rightarrow> Inr c)) of
        Inl e \<Rightarrow> Inl e
      | Inr date_col \<Rightarrow>
          (let df' = set_column ''Date''
                       (map (\<lambda>v. date_cell (to_datetime v)) (column_values date_col df)) df
           in Inr (index_flights (iterrows df'))))"

text \<open>
  \<^verbatim>\<open>
  def parse_pdfs(pdf_dir):
      code_by_date = {}
      for fname in PDF_MONTHS:
          fpath = os.path.join(pdf_dir, fname)
          if not os.path.exists(fpath): continue
          with pdfplumber.open(fpath) as pdf:
              for page in pdf.pages:
                  table = page.extract_table()
                  if not table: continue
                  for row in table:
                      if not row or not row[0]: continue
                      try:
                          dt = pd.to_datetime(row[0], dayfirst=True, errors='coerce').date()
                          code = str(row[1]).strip() if len(row) > 1 and row[1] else ""
                          if dt and code:
                              code_by_date[dt] = code
                      except Exception:
                          continue
      return code_by_date
  \<close>
  A document is the list of its pages, a page what \<open>extract_table()\<close> gives for it:
  nothing, or rows of cells that are a string or \<open>None\<close>. The directory maps the names of
  the files that exist to their documents.

  Here \<open>pd.to_datetime\<close> converts one string: the parameter gives \<open>Inl e\<close> when the call
  raises, \<open>Inr None\<close> when it returns \<open>NaT\<close> (the string is no date), and \<open>Inr (Some d)\<close>
  when it returns a timestamp of the day \<open>d\<close>. \<open>.date()\<close> of a timestamp is its
  \<open>datetime.date\<close> and \<open>.date()\<close> of \<open>NaT\<close> is \<open>NaT\<close>, so the keys of \<open>code_by_date\<close> are
  cells: \<open>VDate d\<close> or \<open>VNaT\<close>. \<open>NaT\<close> is one object and a dict finds it again, so all the
  rows stored under \<open>NaT\<close> share one entry.
\<close>

type_synonym pdf_row = "string option list"

type_synonym pdf_page = "pdf_row list option"

type_synonym pdf = "pdf_page list"

definition PDF_MONTHS :: "string list" where
  "PDF_MONTHS =
     [''GENNAIO_2024.pdf'', ''FEBBRAIO_2024.pdf'', ''MARZO_2024.pdf'', ''APRILE_2024.pdf'',
      ''MAGGIO_2024.pdf'', ''GIUGNO_2024.pdf'', ''LUGLIO_2024.pdf'', ''AGOSTO_2024.pdf'',
      ''SETTEMBRE_2024.pdf'', ''OTTOBRE_2024.pdf'', ''NOVEMBRE_2024.pdf'', ''DICEMBRE_2024.pdf'']"

text \<open>
  The truth value of a cell, as \<open>if dt\<close> takes it: \<open>None\<close>, zero and the empty string are
  false. A \<open>datetime.date\<close> is true; \<open>nan\<close> is true, being a float other than zero; and
  \<open>NaT\<close> is true, as an object that defines no truth value of its own.
\<close>

definition truthy :: "cell \<Rightarrow> bool" where
  "truthy v =
     (case v of
        VNone \<Rightarrow> False
      | VStr s \<Rightarrow> s \<noteq> []
      | VInt n \<Rightarrow> n \<noteq> 0
      | VFloat n \<Rightarrow> n \<noteq> 0
      | _ \<Rightarrow> True)"

text \<open>The body of the innermost loop: what one row does to \<open>code_by_date\<close>.\<close>

definition row_code :: "pdf_row \<Rightarrow> string" where
  "row_code row =
     (case row of
        _ # Some c # _ \<Rightarrow> (if c \<noteq> [] then strip c else [])
      | _ \<Rightarrow> [])"

definition parse_row ::
  "(string \<Rightarrow> error + date option) \<Rightarrow> pdf_row \<Rightarrow> (cell \<rightharpoonup> string) \<Rightarrow> (cell \<rightharpoonup> string)" where
  "parse_row to_datetime row code_by_date =
     (case row of
        [] \<Rightarrow> code_by_date
      | None # _ \<Rightarrow> code_by_date
      | Some s # _ \<Rightarrow>
          (if s = [] then code_by_date
           else (case to_datetime s of
                   Inl e \<Rightarrow> code_by_date
                 | Inr ts \<Rightarrow>
                     (let dt = date_cell ts; code = row_code row
                      in if truthy dt \<and> code \<noteq> [] then code_by_date(dt \<mapsto> code)
                         else code_by_date))))"

definition parse_page ::
  "(string \<Rightarrow> error + date option) \<Rightarrow> pdf_page \<Rightarrow> (cell \<rightharpoonup> string) \<Rightarrow> (cell \<rightharpoonup> string)" where
  "parse_page to_datetime page code_by_date =
     (case page of
        None \<Rightarrow> code_by_date
      | Some table \<Rightarrow> fold (parse_row to_datetime) table code_by_date)"

definition parse_pdfs ::
  "(string \<Rightarrow> error + date option) \<Rightarrow> (string \<rightharpoonup> pdf) \<Rightarrow> (cell \<rightharpoonup> string)" where
  "parse_pdfs to_datetime pdf_dir =
     fold (\<lambda>fname code_by_date.
             case pdf_dir fname of
               None \<Rightarrow> code_by_date
             | Some pdf \<Rightarrow> fold (parse_page to_datetime) pdf code_by_date)
          PDF_MONTHS Map.empty"

text \<open>
  \<open>build_consolidated\<close> reads the index with the days of the year only (\<open>day in codes\<close>,
  \<open>codes[day]\<close>, with \<open>day\<close> a \<open>datetime.date\<close>), and \<open>NaT\<close> equals no date: of the index it
  sees the entries of the dates.
\<close>

definition day_codes :: "(cell \<rightharpoonup> string) \<Rightarrow> (date \<rightharpoonup> string)" where
  "day_codes code_by_date = (\<lambda>day. code_by_date (VDate day))"

section \<open>generate_2024_data.py: the calendar merge\<close>

text \<open>
  \<^verbatim>\<open>
  def build_consolidated(flights, codes):
      consolidated = []
      for day in date_range(2024):
          entry = {'Date': day.strftime("%Y-%m-%d")}
          if day in flights:
              entry['Type'] = "Volo"
              for k, v in flights[day].items():
                  entry[k] = v
          elif day in codes:
              entry['Type'] = codes[day]
          else:
              entry['Type'] = "OFF (auto)"
          consolidated.append(entry)
      return pd.DataFrame(consolidated)
  \<close>
  \<open>merge_entry\<close> is the body of the loop for the day \<open>d\<close>, \<open>consolidated\<close> the list the
  loop builds, and \<open>build_consolidated\<close> the table made of it.
\<close>

definition merge_entry :: "(date \<rightharpoonup> entry) \<Rightarrow> (date \<rightharpoonup> string) \<Rightarrow> date \<Rightarrow> entry" where
  "merge_entry flights codes d =
     (let entry = [(''Date'', VStr (strftime_ymd d))]
      in case flights d of
           Some row \<Rightarrow>
             fold (\<lambda>(k, v) entry. AList.update k v entry) row
               (AList.update ''Type'' (VStr ''Volo'') entry)
         | None \<Rightarrow>
             (case codes d of
                Some code \<Rightarrow> AList.update ''Type'' (VStr code) entry
              | None \<Rightarrow> AList.update ''Type'' (VStr ''OFF (auto)'') entry))"

definition consolidated :: "(date \<rightharpoonup> entry) \<Rightarrow> (date \<rightharpoonup> string) \<Rightarrow> error + entry list" where
  "consolidated flights codes =
     (case date_range 2024 of
        Inl e \<Rightarrow> Inl e
      | Inr days \<Rightarrow> Inr (map (merge_entry flights codes) days))"

definition build_consolidated :: "(date \<rightharpoonup> entry) \<Rightarrow> (date \<rightharpoonup> string) \<Rightarrow> error + dataframe" where
  "build_consolidated flights codes =
     (case consolidated flights codes of
        Inl e \<Rightarrow> Inl e
      | Inr records \<Rightarrow> Inr (DataFrame records))"

section \<open>The rows of the documents, in the order of the loops\<close>

text \<open>
  \<open>row_entry\<close> is the key and code a row stores, if it stores any; \<open>all_rows\<close> lists the
  rows of every document that exists, in the order in which \<open>parse_pdfs\<close> meets them: file
  by file along \<open>PDF_MONTHS\<close>, page by page, row by row.
\<close>

definition row_entry ::
  "(string \<Rightarrow> error + date option) \<Rightarrow> pdf_row \<Rightarrow> (cell \<times> string) option" where
  "row_entry to_datetime row =
     (case row of
        Some s # _ \<Rightarrow>
          (if s = [] then None
           else (case to_datetime s of
                   Inl e \<Rightarrow> None
                 | Inr ts \<Rightarrow>
                     (if truthy (date_cell ts) \<and> row_code row \<noteq> []
                      then Some (date_cell ts, row_code row) else None)))
      | _ \<Rightarrow> None)"

definition page_rows :: "pdf_page \<Rightarrow> pdf_row list" where
  "page_rows page = (case page of None \<Rightarrow> [] | Some table \<Rightarrow> table)"

definition all_rows :: "(string \<rightharpoonup> pdf) \<Rightarrow> pdf_row list" where
  "all_rows pdf_dir =
     concat (map (\<lambda>fname. case pdf_dir fname of
                             None \<Rightarrow> []
                           | Some pdf \<Rightarrow> concat (map page_rows pdf)) PDF_MONTHS)"

section \<open>Worksheets\<close>

text \<open>
  An openpyxl worksheet is the collection of its cell objects, keyed by row and column
  (both from 1); a cell holds a value, \<open>None\<close> when it is empty. Reading a position with no
  cell object gives an empty cell, so the value there is \<open>None\<close> as well; \<open>ws.cell(r, c)\<close>
  creates the missing object. \<open>max_column\<close> is the largest column that has a cell
  object, and 1 on an empty sheet. A workbook is modelled by the one sheet the scripts
  edit (\<open>wb.active\<close>, or the first sheet); they touch no other.
\<close>

type_synonym worksheet = "((nat \<times> nat) \<times> cell) list"

definition cell_value :: "worksheet \<Rightarrow> nat \<Rightarrow> nat \<Rightarrow> cell" where
  "cell_value ws r c = (case map_of ws (r, c) of Some v \<Rightarrow> v | None \<Rightarrow> VNone)"

definition max_column :: "worksheet \<Rightarrow> nat" where
  "max_column ws = fold max (map (\<lambda>kv. snd (fst kv)) ws) 1"

definition touch :: "nat \<Rightarrow> nat \<Rightarrow> worksheet \<Rightarrow> worksheet" where
  "touch r c ws = (if (r, c) \<in> fst ` set ws then ws else ws @ [((r, c), VNone)])"

definition set_value :: "nat \<Rightarrow> nat \<Rightarrow> cell \<Rightarrow> worksheet \<Rightarrow> worksheet" where
  "set_value r c v ws = AList.update (r, c) v ws"

section \<open>generate_2024_data.py: overwriting the spreadsheets\<close>

text \<open>
  \<^verbatim>\<open>
  def overwrite_excel_files(consolidated_df, out_dir):
      excel_files = [f for f in os.listdir(out_dir) if f.lower().endswith('.xlsx')]
      for fname in excel_files:
          fpath = os.path.join(out_dir, fname)
          wb = load_workbook(fpath)
          ws = wb.active
          header = [c.value for c in ws[1]]
          for i, row in enumerate(dataframe_to_rows(consolidated_df, index=False, header=False), start=2):
              for j, value in enumerate(row):
                  if j < len(header):
                      ws.cell(row=i,column=j+1).value = value
          wb.save(fpath)
  \<close>
  \<open>ws[1]\<close> is the first row from column 1 to \<open>max_column\<close>; reading it creates the cells
  it lacks. \<open>dataframe_to_rows\<close> without index and header gives the rows of the table.
  Rows start at 2 and columns at 1, so \<open>ws.cell\<close> never raises here.
\<close>

definition header_row :: "worksheet \<Rightarrow> cell list \<times> worksheet" where
  "header_row ws =
     (map (cell_value ws 1) [1 ..< max_column ws + 1],
      fold (touch 1) [1 ..< max_column ws + 1] ws)"

definition write_timeline_row :: "nat \<Rightarrow> nat \<Rightarrow> cell list \<Rightarrow> worksheet \<Rightarrow> worksheet" where
  "write_timeline_row header_len i row ws =
     fold (\<lambda>(j, v) ws. if j < header_len then set_value i (j + 1) v ws else ws)
       (enumerate 0 row) ws"

definition overwrite_sheet :: "dataframe \<Rightarrow> worksheet \<Rightarrow> worksheet" where
  "overwrite_sheet consolidated_df ws =
     (case header_row ws of
        (header, ws1) \<Rightarrow>
          fold (\<lambda>(i, row) ws. write_timeline_row (length header) i row ws)
            (enumerate 2 (rows consolidated_df)) ws1)"

text \<open>
  The output directory lists its files by name; \<open>load_workbook\<close> opens a workbook and
  raises on any other file. \<open>overwrite_files\<close> is the loop over \<open>excel_files\<close>: it returns
  the directory as the loop leaves it, with the error that stopped it, if any.
\<close>

datatype dir_entry = Workbook worksheet | Other

type_synonym directory = "(string \<times> dir_entry) list"

definition endswith :: "string \<Rightarrow> string \<Rightarrow> bool" where
  "endswith s suffix = (length suffix \<le> length s \<and> drop (length s - length suffix) s = suffix)"

fun overwrite_files :: "dataframe \<Rightarrow> string list \<Rightarrow> directory \<Rightarrow> directory \<times> error option" where
  "overwrite_files consolidated_df [] out_dir = (out_dir, None)"
| "overwrite_files consolidated_df (fname # excel_files) out_dir =
     (case map_of out_dir fname of
        Some (Workbook ws) \<Rightarrow>
          overwrite_files consolidated_df excel_files
            (AList.update fname (Workbook (overwrite_sheet consolidated_df ws)) out_dir)
      | _ \<Rightarrow> (out_dir, Some InvalidFileException))"

definition overwrite_excel_files :: "dataframe \<Rightarrow> directory \<Rightarrow> directory \<times> error option" where
  "overwrite_excel_files consolidated_df out_dir =
     overwrite_files consolidated_df
       (filter (\<lambda>f. endswith (lower f) ''.xlsx'') (map fst out_dir)) out_dir"

text \<open>What the loop does to one file of the directory.\<close>

definition overwritten :: "dataframe \<Rightarrow> dir_entry \<Rightarrow> dir_entry" where
  "overwritten df f = (case f of Workbook ws \<Rightarrow> Workbook (overwrite_sheet df ws) | Other \<Rightarrow> Other)"

section \<open>generate_2024_from_pdfs.py: writing a table into a template\<close>

text \<open>A loop whose body can raise: it stops at the first error.\<close>

fun for_each :: "('a \<Rightarrow> 's \<Rightarrow> error + 's) \<Rightarrow> 'a list \<Rightarrow> 's \<Rightarrow> error + 's" where
  "for_each body [] s = Inr s"
| "for_each body (x # xs) s =
     (case body x s of Inl e \<Rightarrow> Inl e | Inr s' \<Rightarrow> for_each body xs s')"

text \<open>
  \<open>ws.cell(row=r, column=c)\<close> raises a ValueError when the row or the column is below 1, and
  creates the cell when the sheet has none there; with \<open>value=v\<close> it also assigns \<open>v\<close>,
  unless \<open>v\<close> is \<open>None\<close>.
\<close>

definition ws_cell :: "nat \<Rightarrow> nat \<Rightarrow> worksheet \<Rightarrow> error + worksheet" where
  "ws_cell r c ws = (if r < 1 \<or> c < 1 then Inl ValueError else Inr (touch r c ws))"

definition ws_cell_value :: "nat \<Rightarrow> nat \<Rightarrow> cell \<Rightarrow> worksheet \<Rightarrow> error + worksheet" where
  "ws_cell_value r c v ws =
     (case ws_cell r c ws of
        Inl e \<Rightarrow> Inl e
      | Inr ws' \<Rightarrow> Inr (if v \<noteq> VNone then set_value r c v ws' else ws'))"

text \<open>
  \<^verbatim>\<open>
  def write_df_into_workbook(workbook_path, df, start_row=WRITE_START_ROW, start_col=WRITE_START_COL):
      wb = load_workbook(workbook_path)
      ws = wb[wb.sheetnames[0]]
      max_rows_to_clear = max(50, len(df) + 10)
      for r in range(start_row, start_row + max_rows_to_clear):
          for c in range(1, ws.max_column + 1):
              cell = ws.cell(row=r, column=c)
              if cell.value is not None:
                  cell.value = None
      for i, row in enumerate(df.itertuples(index=False), start=0):
          for j, value in enumerate(row, start=0):
              ws.cell(row=start_row + i, column=start_col + j, value=value)
      wb.save(workbook_path)
  \<close>
  The model takes the sheet that was loaded and returns the sheet that is saved; when a
  cell access raises, nothing is saved.
\<close>

definition WRITE_START_ROW :: nat where
  "WRITE_START_ROW = 4"

definition WRITE_START_COL :: nat where
  "WRITE_START_COL = 1"

definition clear_cell :: "nat \<Rightarrow> nat \<Rightarrow> worksheet \<Rightarrow> error + worksheet" where
  "clear_cell r c ws =
     (case ws_cell r c ws of
        Inl e \<Rightarrow> Inl e
      | Inr ws' \<Rightarrow> Inr (if cell_value ws' r c \<noteq> VNone then set_value r c VNone ws' else ws'))"

definition clear_row :: "nat \<Rightarrow> worksheet \<Rightarrow> error + worksheet" where
  "clear_row r ws = for_each (clear_cell r) [1 ..< max_column ws + 1] ws"

definition write_df_row :: "nat \<Rightarrow> nat \<Rightarrow> nat \<times> cell list \<Rightarrow> worksheet \<Rightarrow> error + worksheet" where
  "write_df_row start_row start_col ir ws =
     (case ir of
        (i, row) \<Rightarrow>
          for_each (\<lambda>(j, v). ws_cell_value (start_row + i) (start_col + j) v) (enumerate 0 row) ws)"

definition write_df_into_workbook :: "worksheet \<Rightarrow> dataframe \<Rightarrow> nat \<Rightarrow> nat \<Rightarrow> error + worksheet" where
  "write_df_into_workbook ws df start_row start_col =
     (let max_rows_to_clear = max 50 (length (rows df) + 10)
      in case for_each clear_row [start_row ..< start_row + max_rows_to_clear] ws of
           Inl e \<Rightarrow> Inl e
         | Inr ws1 \<Rightarrow> for_each (write_df_row start_row start_col) (enumerate 0 (rows df)) ws1)"

section \<open>generate_2024_from_pdfs.py: one output file per monthly document\<close>

text \<open>
  The files the script works on: the names in \<open>DATA_DIR\<close>, the workbooks of \<open>TEMPLATE_DIR\<close>
  and of \<open>OUTPUT_DIR\<close> by name, and what has been printed. Each \<open>print\<close> is recorded as a
  message with the values it formats.
\<close>

datatype message =
    NoPdfsFound
  | Copied string string
  | NoTables string
  | Wrote string
  | ErrorProcessing string error
  | Done nat

record files =
  data_dir :: "string list"
  template_dir :: "string \<rightharpoonup> worksheet"
  output_dir :: "string \<rightharpoonup> worksheet"
  stdout :: "message list"

text \<open>\<open>df.empty\<close>, and \<open>df.dropna(axis=1, how='all')\<close>: the columns that are not null in
  every row.\<close>

definition empty_df :: "dataframe \<Rightarrow> bool" where
  "empty_df df = (rows df = [] \<or> columns df = [])"

definition dropna_columns :: "dataframe \<Rightarrow> dataframe" where
  "dropna_columns df =
     (let keep = filter (\<lambda>j. \<not> list_all (\<lambda>r. j < length r \<and> \<not> notnull (r ! j)) (rows df))
                   [0 ..< length (columns df)]
      in \<lparr>columns = map (\<lambda>j. columns df ! j) keep,
          rows = map (\<lambda>r. map (\<lambda>j. if j < length r then r ! j else VNaN) keep) (rows df)\<rparr>)"

text \<open>
  \<^verbatim>\<open>
  def process_month_pdf(pdf_path):
      pdf_name = Path(pdf_path).name
      month_key = pdf_name.split('_')[0]
      template_name = f"{month_key} 2023.xlsx"
      template_path = TEMPLATE_DIR / template_name
      if not template_path.exists():
          template_path = TEMPLATE_DIR / '2023.xlsx'
          if not template_path.exists():
              raise FileNotFoundError(f"No template found for {month_key} ...")
      out_filename = f"{month_key} 2024.xlsx"
      out_path = OUTPUT_DIR / out_filename
      shutil.copyfile(template_path, out_path)
      print(f"Copied template {template_path.name} -> {out_path}")
      df = extract_tables_from_pdf(pdf_path)
      if df.empty:
          print(f"No tables found in {pdf_name}; leaving template copy as-is.")
          return out_path
      df = df.dropna(axis=1, how='all')
      df.columns = [str(c) for c in df.columns]
      write_df_into_workbook(str(out_path), df)
      print(f"Wrote extracted table to {out_path}")
      return out_path
  \<close>
  \<open>extract_tables_from_pdf\<close> reads the document with pdfplumber and joins its tables with
  pandas; the model takes it as a parameter that gives, for a document's name, the table
  or the error it raises, and what is proved of the run holds for every such function.
  The result is the value returned or the error raised, with the files as the call leaves
  them.
\<close>

definition month_key_of :: "string \<Rightarrow> string" where
  "month_key_of pdf_name = (case split_on (CHR ''_'') pdf_name of k # _ \<Rightarrow> k | [] \<Rightarrow> [])"

definition find_template :: "files \<Rightarrow> string \<Rightarrow> error + (string \<times> worksheet)" where
  "find_template st month_key =
     (case template_dir st (month_key @ '' 2023.xlsx'') of
        Some t \<Rightarrow> Inr (month_key @ '' 2023.xlsx'', t)
      | None \<Rightarrow>
          (case template_dir st ''2023.xlsx'' of
             Some t \<Rightarrow> Inr (''2023.xlsx'', t)
           | None \<Rightarrow> Inl (FileNotFoundError month_key)))"

definition process_month_pdf ::
  "(string \<Rightarrow> error + dataframe) \<Rightarrow> string \<Rightarrow> files \<Rightarrow> (error + string) \<times> files" where
  "process_month_pdf extract_tables_from_pdf pdf_name st =
     (let month_key = month_key_of pdf_name
      in case find_template st month_key of
           Inl e \<Rightarrow> (Inl e, st)
         | Inr (template_name, template) \<Rightarrow>
             (let out_filename = month_key @ '' 2024.xlsx'';
                  st1 = st\<lparr>output_dir := (output_dir st)(out_filename \<mapsto> template),
                           stdout := stdout st @ [Copied template_name out_filename]\<rparr>
              in case extract_tables_from_pdf pdf_name of
                   Inl e \<Rightarrow> (Inl e, st1)
                 | Inr df \<Rightarrow>
                     if empty_df df
                     then (Inr out_filename, st1\<lparr>stdout := stdout st1 @ [NoTables pdf_name]\<rparr>)
                     else (case write_df_into_workbook template (dropna_columns df)
                                  WRITE_START_ROW WRITE_START_COL of
                             Inl e \<Rightarrow> (Inl e, st1)
                           | Inr ws \<Rightarrow>
                               (Inr out_filename,
                                st1\<lparr>output_dir := (output_dir st1)(out_filename \<mapsto> ws),
                                    stdout := stdout st1 @ [Wrote out_filename]\<rparr>))))"

text \<open>
  \<^verbatim>\<open>
  def main():
      pdf_files = sorted(glob.glob(str(DATA_DIR / '*_2024.pdf')))
      if not pdf_files:
          print(f"No monthly PDFs found in {DATA_DIR}")
          return
      created = []
      for pdf in pdf_files:
          try:
              out = process_month_pdf(pdf)
              created.append(out)
          except Exception as e:
              print(f"Error processing {pdf}: {e}")
      print(f"Done. Created {len(created)} files in {OUTPUT_DIR}")
  \<close>
  The pattern matches the names that end in \<open>_2024.pdf\<close> and do not start with a dot
  (\<open>glob\<close> leaves hidden files out). All paths share the directory, so sorting the paths
  sorts the names, character by character.
\<close>

definition glob_2024_pdf :: "string \<Rightarrow> bool" where
  "glob_2024_pdf name =
     (endswith name ''_2024.pdf'' \<and> (case name of c # _ \<Rightarrow> c \<noteq> CHR ''.'' | [] \<Rightarrow> True))"

definition pdf_files :: "files \<Rightarrow> string list" where
  "pdf_files st = sort (filter glob_2024_pdf (data_dir st))"

fun main_loop ::
  "(string \<Rightarrow> error + dataframe) \<Rightarrow> string list \<Rightarrow> string list \<times> files \<Rightarrow> string list \<times> files" where
  "main_loop extract_tables_from_pdf [] (created, st) = (created, st)"
| "main_loop extract_tables_from_pdf (pdf # pdfs) (created, st) =
     (case process_month_pdf extract_tables_from_pdf pdf st of
        (Inr out, st') \<Rightarrow> main_loop extract_tables_from_pdf pdfs (created @ [out], st')
      | (Inl e, st') \<Rightarrow>
          main_loop extract_tables_from_pdf pdfs
            (created, st'\<lparr>stdout := stdout st' @ [ErrorProcessing pdf e]\<rparr>))"

definition main :: "(string \<Rightarrow> error + dataframe) \<Rightarrow> files \<Rightarrow> files" where
  "main extract_tables_from_pdf st =
     (if pdf_files st = [] then st\<lparr>stdout := stdout st @ [NoPdfsFound]\<rparr>
      else (case main_loop extract_tables_from_pdf (pdf_files st) ([], st) of
              (created, st') \<Rightarrow> st'\<lparr>stdout := stdout st' @ [Done (length created)]\<rparr>))"

text \<open>What one call returns and prints, and the output file of a call that returns: they
  depend on the templates alone, not on the files written or the text printed before.\<close>

definition item_result ::
  "(string \<Rightarrow> error + dataframe) \<Rightarrow> (string \<rightharpoonup> worksheet) \<Rightarrow> string \<Rightarrow> error + string" where
  "item_result ex tdir p =
     fst (process_month_pdf ex p
            \<lparr>data_dir = [], template_dir = tdir, output_dir = Map.empty, stdout = []\<rparr>)"

definition item_messages ::
  "(string \<Rightarrow> error + dataframe) \<Rightarrow> (string \<rightharpoonup> worksheet) \<Rightarrow> string \<Rightarrow> message list" where
  "item_messages ex tdir p =
     stdout (snd (process_month_pdf ex p
                    \<lparr>data_dir = [], template_dir = tdir, output_dir = Map.empty, stdout = []\<rparr>))"

definition item_output ::
  "(string \<Rightarrow> error + dataframe) \<Rightarrow> (string \<rightharpoonup> worksheet) \<Rightarrow> string \<Rightarrow> string option" where
  "item_output ex tdir p =
     (case item_result ex tdir p of Inr out \<Rightarrow> Some out | Inl e \<Rightarrow> None)"

section \<open>generate_2024_data.py: the monthly summary\<close>

text \<open>
  \<^verbatim>\<open>
  def generate_trace_md(consolidated_df, out_dir, filename):
      months = {m: [] for m in range(1, 13)}
      for _, row in consolidated_df.iterrows():
          dt = datetime.datetime.strptime(row['Date'], "%Y-%m-%d").date()
          months[dt.month].append(row)
      with open(os.path.join(out_dir, filename), "w", encoding="utf-8") as f:
          for m in range(1, 13):
              f.write(f"# {datetime.date(2024, m, 1).strftime('%B').upper()} 2024\n")
              vo, pdf, auto_off = 0, 0, 0
              for r in months[m]:
                  t = r['Type']
                  if t == "Volo": vo += 1
                  elif t == "OFF (auto)": auto_off += 1
                  else: pdf += 1
                  f.write(f"- {r['Date']}: {t}\n")
              f.write(f"\nSummary: Volo={vo}, PDF codes={pdf}, OFF (auto)={auto_off}\n\n")
  \<close>
  The result is the text of the file, or the error raised: \<open>row['Date']\<close> and \<open>r['Type']\<close>
  raise a KeyError on a table without the column, and \<open>strptime\<close> a TypeError on a value
  that is not a string and a ValueError on a string that is not a date. The file is taken
  to open; what was written before an error is not kept by the model.
\<close>

definition newline :: string where
  "newline = [CHR 0x0A]"

fun show_nat :: "nat \<Rightarrow> string" where
  "show_nat n = (if n < 10 then [digit_char n] else show_nat (n div 10) @ [digit_char n])"

text \<open>
  \<open>repr\<close> of a float with an integer value: all the digits and \<open>.0\<close> below \<open>10\<^sup>1\<^sup>6\<close>, and
  from there on the shortest decimal that rounds to the float (the nearer of the two when
  two of a length do), written with an exponent.
\<close>

definition shortest_decimal :: "nat \<Rightarrow> nat" where
  "shortest_decimal a =
     (let nd = length (show_nat a);
          candidates =
            concat (map (\<lambda>k. let p = 10 ^ (nd - k); c1 = a div p * p; c2 = c1 + p
                             in if a - c1 \<le> c2 - a then [c1, c2] else [c2, c1]) [1 ..< 18])
      in case find (\<lambda>c. float64_of_int (int c) = int a) candidates of
           Some c \<Rightarrow> c
         | None \<Rightarrow> a)"

definition repr_float :: "int \<Rightarrow> string" where
  "repr_float n =
     (let a = nat \<bar>n\<bar>; sign = (if n < 0 then ''-'' else [])
      in if a < 10 ^ 16 then sign @ show_nat a @ ''.0''
         else (let ds = show_nat (shortest_decimal a);
                   dg = rev (dropWhile (\<lambda>c. c = CHR ''0'') (rev ds))
               in sign @ take 1 dg @ (if 1 < length dg then ''.'' @ drop 1 dg else []) @
                  ''e+'' @ show_nat (length ds - 1)))"

text \<open>\<open>str(v)\<close>, as an f-string formats a value.\<close>

definition str_cell :: "cell \<Rightarrow> string" where
  "str_cell v =
     (case v of
        VNone \<Rightarrow> ''None''
      | VNaN \<Rightarrow> ''nan''
      | VNaT \<Rightarrow> ''NaT''
      | VStr s \<Rightarrow> s
      | VInt i \<Rightarrow> (if i < 0 then ''-'' @ show_nat (nat (- i)) else show_nat (nat i))
      | VFloat n \<Rightarrow> repr_float n
      | VDate d \<Rightarrow> strftime_ymd d)"

definition strptime_cell :: "cell \<Rightarrow> error + date" where
  "strptime_cell v = (case v of VStr s \<Rightarrow> strptime_ymd s | _ \<Rightarrow> Inl TypeError)"

text \<open>The first loop: the rows of each month, in the order of the table.\<close>

fun group_months :: "entry list \<Rightarrow> (nat \<Rightarrow> entry list) \<Rightarrow> error + (nat \<Rightarrow> entry list)" where
  "group_months [] months = Inr months"
| "group_months (row # rs) months =
     (case map_of row ''Date'' of
        None \<Rightarrow> Inl KeyError
      | Some v \<Rightarrow>
          (case strptime_cell v of
             Inl e \<Rightarrow> Inl e
           | Inr dt \<Rightarrow> group_months rs (months(month dt := months (month dt) @ [row]))))"

definition MONTH_NAMES :: "string list" where
  "MONTH_NAMES =
     [''JANUARY'', ''FEBRUARY'', ''MARCH'', ''APRIL'', ''MAY'', ''JUNE'', ''JULY'', ''AUGUST'',
      ''SEPTEMBER'', ''OCTOBER'', ''NOVEMBER'', ''DECEMBER'']"

definition trace_header :: "nat \<Rightarrow> string" where
  "trace_header m = ''# '' @ MONTH_NAMES ! (m - 1) @ '' 2024'' @ newline"

definition day_line :: "cell \<Rightarrow> cell \<Rightarrow> string" where
  "day_line d t = ''- '' @ str_cell d @ '': '' @ str_cell t @ newline"

definition summary_line :: "nat \<Rightarrow> nat \<Rightarrow> nat \<Rightarrow> string" where
  "summary_line vo pdf auto_off =
     newline @ ''Summary: Volo='' @ show_nat vo @ '', PDF codes='' @ show_nat pdf @
     '', OFF (auto)='' @ show_nat auto_off @ newline @ newline"

text \<open>The loop over the rows of one month, on the three counters and the text written.\<close>

fun write_days ::
  "entry list \<Rightarrow> nat \<times> nat \<times> nat \<times> string \<Rightarrow> error + (nat \<times> nat \<times> nat \<times> string)" where
  "write_days [] acc = Inr acc"
| "write_days (r # rs) (vo, pdf, auto_off, f) =
     (case map_of r ''Type'' of
        None \<Rightarrow> Inl KeyError
      | Some t \<Rightarrow>
          (case map_of r ''Date'' of
             None \<Rightarrow> Inl KeyError
           | Some d \<Rightarrow>
               (if t = VStr ''Volo'' then write_days rs (vo + 1, pdf, auto_off, f @ day_line d t)
                else if t = VStr ''OFF (auto)''
                then write_days rs (vo, pdf, auto_off + 1, f @ day_line d t)
                else write_days rs (vo, pdf + 1, auto_off, f @ day_line d t))))"

fun write_months :: "(nat \<Rightarrow> entry list) \<Rightarrow> nat list \<Rightarrow> string \<Rightarrow> error + string" where
  "write_months months [] f = Inr f"
| "write_months months (m # ms) f =
     (case write_days (months m) (0, 0, 0, f @ trace_header m) of
        Inl e \<Rightarrow> Inl e
      | Inr (vo, pdf, auto_off, f') \<Rightarrow>
          write_months months ms (f' @ summary_line vo pdf auto_off))"

definition generate_trace_md :: "dataframe \<Rightarrow> error + string" where
  "generate_trace_md consolidated_df =
     (case group_months (iterrows consolidated_df) (\<lambda>m. []) of
        Inl e \<Rightarrow> Inl e
      | Inr months \<Rightarrow> write_months months [1 ..< 13] [])"

section \<open>The month of a row\<close>

text \<open>The month under which the first loop of the renderer files a row: that of its
  \<open>Date\<close>, when \<open>strptime\<close> accepts it.\<close>

definition row_month :: "entry \<Rightarrow> nat option" where
  "row_month r =
     (case map_of r ''Date'' of
        None \<Rightarrow> None
      | Some v \<Rightarrow> (case strptime_cell v of Inl e \<Rightarrow> None | Inr dt \<Rightarrow> Some (month dt)))"

section \<open>Example inputs\<close>

text \<open>A report with the columns \<open>Date\<close> and \<open>Flight\<close> and one row, and the day-first
  reading of its date.\<close>

definition report_csv :: dataframe where
  "report_csv = \<lparr>columns = [''Date'', ''Flight''], rows = [[VStr ''15/03/2024'', VStr ''AZ100'']]\<rparr>"

definition dayfirst_15_03 :: "cell \<Rightarrow> date option" where
  "dayfirst_15_03 v = (if v = VStr ''15/03/2024'' then Some (Date 2024 3 15) else None)"

text \<open>Two duty logs that both have a row for 10 June 2024, the second below the header
  row of its table; and the day-first reading of their first cells: the date, and \<open>NaT\<close>
  for the header.\<close>

definition dayfirst_10_06 :: "string \<Rightarrow> error + date option" where
  "dayfirst_10_06 s = (if s = ''10/06/2024'' then Inr (Some (Date 2024 6 10)) else Inr None)"

definition duty_logs :: "string \<rightharpoonup> pdf" where
  "duty_logs =
     [''MAGGIO_2024.pdf'' \<mapsto> [Some [[Some ''10/06/2024'', Some ''RI'']], None],
      ''GIUGNO_2024.pdf'' \<mapsto> [Some [[Some ''Data'', Some ''Codice''], [Some ''10/06/2024'', Some '' FE '']]]]"

text \<open>A sheet with a header of two columns, and a timeline of two days with three
  columns.\<close>

definition template_sheet :: worksheet where
  "template_sheet =
     [((1, 1), VStr ''Date''), ((1, 2), VStr ''Type''), ((2, 1), VStr ''2023-01-01''),
      ((5, 2), VStr ''total'')]"

definition two_days :: dataframe where
  "two_days =
     \<lparr>columns = [''Date'', ''Type'', ''Flight''],
      rows = [[VStr ''2024-01-01'', VStr ''OFF (auto)'', VNaN],
              [VStr ''2024-01-02'', VStr ''Volo'', VStr ''AZ100'']]\<rparr>"

text \<open>A template for March with a title, a header in row 3, a row of data and a cell
  far below; and a table of one row and three columns.\<close>

definition march_template :: worksheet where
  "march_template =
     [((1, 1), VStr ''MARZO 2023''), ((3, 1), VStr ''Data''), ((3, 2), VStr ''Codice''),
      ((4, 1), VStr ''01/03/2023''), ((4, 2), VStr ''RI''), ((60, 2), VStr ''fine'')]"

definition march_table :: dataframe where
  "march_table =
     \<lparr>columns = [''0'', ''1'', ''2''],
      rows = [[VStr ''01/03/2024'', VStr ''FE'', VStr ''note'']]\<rparr>"

text \<open>A data directory with one monthly document, one document of no month and two files
  the pattern leaves out; only March has a template; no document yields a table.\<close>

definition example_files :: files where
  "example_files =
     \<lparr>data_dir = [''MARZO_2024.pdf'', ''notes.txt'', ''EXTRA_2024.pdf'', ''.old_2024.pdf''],
      template_dir = [''MARZO 2023.xlsx'' \<mapsto> march_template],
      output_dir = Map.empty,
      stdout = []\<rparr>"

definition no_tables :: "string \<Rightarrow> error + dataframe" where
  "no_tables pdf_name = Inr \<lparr>columns = [], rows = []\<rparr>"

section \<open>Facts about the calendar\<close>

lemma month_cases:
  assumes "1 \<le> m" "m \<le> 12"
  obtains "m = 1" | "m = 2" | "m = 3" | "m = 4" | "m = 5" | "m = 6"
    | "m = 7" | "m = 8" | "m = 9" | "m = 10" | "m = 11" | "m = (12::nat)"
proof -
  from assms have "m = 1 \<or> m = 2 \<or> m = 3 \<or> m = 4 \<or> m = 5 \<or> m = 6 \<or> m = 7 \<or> m = 8
      \<or> m = 9 \<or> m = 10 \<or> m = 11 \<or> m = 12"
    by arith
  then show thesis using that by blast
qed

lemma days_before_month_Suc:
  assumes "1 \<le> m" "m < 12"
  shows "days_before_month y (Suc m) = days_before_month y m + days_in_month y m"
proof -
  from assms have "1 \<le> m" "m \<le> 12" by simp_all
  then show ?thesis using assms(2)
    by (cases rule: month_cases) (simp_all add: days_before_month_def days_in_month_def)
qed

lemma days_before_month_12:
  "days_before_month y 12 + days_in_month y 12 = days_in_year y"
  by (simp add: days_before_month_def days_in_month_def days_in_year_def)

lemma days_before_month_mono:
  assumes "1 \<le> m" "m \<le> m'" "m' \<le> 12"
  shows "days_before_month y m \<le> days_before_month y m'"
  using assms(2,1,3)
proof (induction m' rule: dec_induct)
  case base
  show ?case by simp
next
  case (step k)
  then have "days_before_month y (Suc k) = days_before_month y k + days_in_month y k"
    by (intro days_before_month_Suc) simp_all
  with step show ?case by simp
qed

lemma days_in_month_pos: "1 \<le> days_in_month y m"
  by (simp add: days_in_month_def)

lemma yday_le_days_in_year:
  assumes "valid_date d"
  shows "1 \<le> yday d" and "yday d \<le> days_in_year (year d)"
proof -
  from assms show "1 \<le> yday d" by (simp add: valid_date_def yday_def)
  from assms have m: "1 \<le> month d" "month d \<le> 12"
    and dd: "day d \<le> days_in_month (year d) (month d)"
    by (simp_all add: valid_date_def)
  have "days_before_month (year d) (month d) + days_in_month (year d) (month d) \<le> days_in_year (year d)"
  proof (cases "month d = 12")
    case True
    then show ?thesis using days_before_month_12 [of "year d"] by simp
  next
    case False
    with m have lt: "month d < 12" by simp
    have "days_before_month (year d) (Suc (month d)) \<le> days_before_month (year d) 12"
      using m lt by (intro days_before_month_mono) simp_all
    moreover have "days_before_month (year d) 12 \<le> days_in_year (year d)"
      using days_before_month_12 [of "year d"] by simp
    ultimately show ?thesis using days_before_month_Suc [OF m(1) lt, of "year d"] by simp
  qed
  with dd show "yday d \<le> days_in_year (year d)" by (simp add: yday_def)
qed

lemma next_day_same_year:
  assumes v: "valid_date d" and lt: "yday d < days_in_year (year d)"
  shows "valid_date (next_day d) \<and> year (next_day d) = year d \<and> yday (next_day d) = Suc (yday d)"
proof (cases "day d < days_in_month (year d) (month d)")
  case True
  with v show ?thesis by (simp add: next_day_def valid_date_def yday_def)
next
  case False
  with v have eq: "day d = days_in_month (year d) (month d)" by (simp add: valid_date_def)
  from v have m: "1 \<le> month d" "month d \<le> 12" by (simp_all add: valid_date_def)
  have "month d \<noteq> 12"
  proof
    assume "month d = 12"
    with eq have "yday d = days_in_year (year d)"
      using days_before_month_12 [of "year d"] by (simp add: yday_def)
    with lt show False by simp
  qed
  with m have m12: "month d < 12" by simp
  from False m12 have nd: "next_day d = Date (year d) (Suc (month d)) 1"
    by (simp add: next_day_def)
  show ?thesis
    using v m12 eq days_before_month_Suc [OF m(1) m12, of "year d"] days_in_month_pos
    by (simp add: nd valid_date_def yday_def)
qed

lemma add_days_in_year:
  assumes "1 \<le> y" "y \<le> 9999" "n < days_in_year y"
  shows "valid_date (add_days (Date y 1 1) n) \<and> year (add_days (Date y 1 1) n) = y \<and>
         yday (add_days (Date y 1 1) n) = Suc n"
  using assms(3)
proof (induction n)
  case 0
  from assms(1,2) show ?case
    by (simp add: valid_date_def yday_def days_before_month_def days_in_month_def)
next
  case (Suc n)
  then have ih: "valid_date (add_days (Date y 1 1) n)" "year (add_days (Date y 1 1) n) = y"
    "yday (add_days (Date y 1 1) n) = Suc n"
    by simp_all
  from ih Suc.prems have "yday (add_days (Date y 1 1) n) < days_in_year (year (add_days (Date y 1 1) n))"
    by simp
  from next_day_same_year [OF ih(1) this] ih show ?case by simp
qed

lemma date_less_yday:
  assumes "valid_date a" "valid_date b" "year a = year b" "date_less a b"
  shows "yday a < yday b"
proof (cases "month a < month b")
  case True
  from assms(1) have ma: "1 \<le> month a" and da: "day a \<le> days_in_month (year a) (month a)"
    by (simp_all add: valid_date_def)
  from assms(2) have mb: "month b \<le> 12" and db: "1 \<le> day b" by (simp_all add: valid_date_def)
  from True mb have lt: "month a < 12" by simp
  have "yday a \<le> days_before_month (year a) (Suc (month a))"
    using da days_before_month_Suc [OF ma lt, of "year a"] by (simp add: yday_def)
  also have "\<dots> \<le> days_before_month (year a) (month b)"
    using True mb by (intro days_before_month_mono) simp_all
  also have "\<dots> < yday b" using db assms(3) by (simp add: yday_def)
  finally show ?thesis .
next
  case False
  with assms(3,4) have "month a = month b" "day a < day b" by (auto simp: date_less_def)
  with assms(3) show ?thesis by (simp add: yday_def)
qed

lemma date_less_total: "date_less a b \<or> a = b \<or> date_less b a"
  by (cases a; cases b) (auto simp: date_less_def)

lemma yday_less_date:
  assumes "valid_date a" "valid_date b" "year a = year b" "yday a < yday b"
  shows "date_less a b"
  using date_less_total [of a b] assms date_less_yday [of b a] by auto

lemma yday_inj:
  assumes "valid_date a" "valid_date b" "year a = year b" "yday a = yday b"
  shows "a = b"
  using date_less_total [of a b] assms date_less_yday [of b a] date_less_yday [of a b] by auto

lemma date_range_eq:
  assumes "1 \<le> y" "y \<le> 9999"
  shows "date_range (int y) = Inr (map (add_days (Date y 1 1)) [0 ..< days_in_year y])"
proof -
  have "days_between (Date y 1 1) (Date y 12 31) + 1 = int (days_in_year y)"
    by (simp add: days_between_def toordinal_def yday_def days_before_month_def days_in_year_def)
  with assms show ?thesis
    by (simp add: date_range_def make_date_def valid_date_def days_in_month_def)
qed

lemma date_range_error:
  "y < 1 \<or> 9999 < y \<Longrightarrow> date_range y = Inl ValueError"
  by (auto simp: date_range_def make_date_def)

lemma add_days_yday:
  assumes "valid_date d"
  shows "add_days (Date (year d) 1 1) (yday d - 1) = d"
proof -
  from assms have y: "1 \<le> year d" "year d \<le> 9999" by (simp_all add: valid_date_def)
  from yday_le_days_in_year [OF assms] have n: "yday d - 1 < days_in_year (year d)" "Suc (yday d - 1) = yday d"
    by simp_all
  from add_days_in_year [OF y n(1)] n(2) assms show ?thesis
    by (intro yday_inj) simp_all
qed

section \<open>Facts about the merge\<close>

lemma date_range_2024:
  "date_range 2024 = Inr (map (add_days (Date 2024 1 1)) [0 ..< 366])"
  using date_range_eq [of 2024] by (simp add: days_in_year_def is_leap_def)

lemma fold_update_map_of:
  "map_of (fold (\<lambda>(k, v) e. AList.update k v e) row e) k =
     (case map_of (rev row) k of Some v \<Rightarrow> Some v | None \<Rightarrow> map_of e k)"
proof (induction row arbitrary: e)
  case Nil
  show ?case by simp
next
  case (Cons p row)
  obtain k' v' where p: "p = (k', v')" by (cases p)
  show ?case
    by (simp add: p Cons.IH update_conv' map_add_def split: option.splits)
qed

lemma map_of_rev_None: "map_of (rev row) k = None \<longleftrightarrow> k \<notin> fst ` set row"
  by (simp add: map_of_eq_None_iff)

lemma merge_entry_flight:
  assumes "flights d = Some row"
  shows "map_of (merge_entry flights codes d) k =
     (case map_of (rev row) k of
        Some v \<Rightarrow> Some v
      | None \<Rightarrow> (if k = ''Date'' then Some (VStr (strftime_ymd d))
                 else if k = ''Type'' then Some (VStr ''Volo'') else None))"
  using assms by (simp add: merge_entry_def fold_update_map_of split: option.splits)

lemma merge_entry_code:
  assumes "flights d = None" "codes d = Some code"
  shows "merge_entry flights codes d = [(''Date'', VStr (strftime_ymd d)), (''Type'', VStr code)]"
  using assms by (simp add: merge_entry_def)

lemma merge_entry_off:
  assumes "flights d = None" "codes d = None"
  shows "merge_entry flights codes d = [(''Date'', VStr (strftime_ymd d)), (''Type'', VStr ''OFF (auto)'')]"
  using assms by (simp add: merge_entry_def)

section \<open>Formatting and parsing a date are inverse\<close>

lemma of_char_digit_char: "(of_char (digit_char n) :: nat) = 48 + n mod 10"
proof -
  have "(48 + n mod 10) mod 256 = 48 + n mod 10" by simp
  then show ?thesis by (simp add: digit_char_def)
qed

lemma digit_char_not_dash: "digit_char n \<noteq> CHR ''-''"
proof
  assume "digit_char n = CHR ''-''"
  then have "(of_char (digit_char n) :: nat) = of_char (CHR ''-'')" by simp
  then show False by (simp add: of_char_digit_char)
qed

lemma digit_char_not_space: "digit_char n \<noteq> CHR '' ''"
proof
  assume "digit_char n = CHR '' ''"
  then have "(of_char (digit_char n) :: nat) = of_char (CHR '' '')" by simp
  then show False by (simp add: of_char_digit_char)
qed

lemma is_digit_digit_char: "is_digit (digit_char n)"
  by (simp add: is_digit_def of_char_digit_char)

lemma day_field_pad2: "day_field (pad2 n) = pad2 n"
  by (simp add: day_field_def pad2_def digit_char_not_space)

lemma split_on_strftime:
  "split_on (CHR ''-'') (strftime_ymd d) = [pad4 (year d), pad2 (month d), pad2 (day d)]"
  by (simp add: strftime_ymd_def pad4_def pad2_def digit_char_not_dash)

lemma digits_val_pad4: 
  assumes "n < 10000" shows "digits_val (pad4 n) = n"
proof -
  have a: "n div 1000 mod 10 = n div 1000" using assms by simp
  have b: "n div 100 = 10 * (n div 1000) + n div 100 mod 10"
    using div_mult2_eq [of n 100 10] by simp
  have c: "n div 10 = 10 * (n div 100) + n div 10 mod 10"
    using div_mult2_eq [of n 10 10] by simp
  have d: "n = 10 * (n div 10) + n mod 10" by simp
  have "10 * (10 * (10 * (n div 1000 mod 10) + n div 100 mod 10) + n div 10 mod 10) + n mod 10
        = 10 * (10 * (n div 100) + n div 10 mod 10) + n mod 10"
    using a b by simp
  also have "\<dots> = 10 * (n div 10) + n mod 10" using c by simp
  also have "\<dots> = n" by simp
  finally have "10 * (10 * (10 * (n div 1000 mod 10) + n div 100 mod 10) + n div 10 mod 10) + n mod 10 = n" .
  with a show ?thesis
    unfolding digits_val_def pad4_def by (simp add: of_char_digit_char)
qed

lemma digits_val_pad2: "n < 100 \<Longrightarrow> digits_val (pad2 n) = n"
  unfolding digits_val_def pad2_def by (simp add: of_char_digit_char)

lemma strptime_strftime:
  assumes "valid_date d"
  shows "strptime_ymd (strftime_ymd d) = Inr d"
proof -
  from assms have y: "year d < 10000" and m: "month d < 100" and dd: "day d < 100"
    by (auto simp: valid_date_def days_in_month_def split: if_splits)
  have dig: "list_all is_digit (pad4 (year d) @ pad2 (month d) @ pad2 (day d))"
    by (simp add: pad4_def pad2_def is_digit_digit_char)
  have len: "length (pad4 (year d)) = 4" "length (pad2 (month d)) = 2" "length (pad2 (day d)) = 2"
    by (simp_all add: pad4_def pad2_def)
  show ?thesis
    unfolding strptime_ymd_def split_on_strftime
    using assms dig len
    by (simp add: day_field_pad2 digits_val_pad4 [OF y] digits_val_pad2 [OF m] digits_val_pad2 [OF dd])
qed

lemma strftime_inj:
  assumes "valid_date a" "valid_date b" "strftime_ymd a = strftime_ymd b"
  shows "a = b"
proof -
  have "Inr a = strptime_ymd (strftime_ymd a)" using strptime_strftime [OF assms(1)] by simp
  also have "\<dots> = strptime_ymd (strftime_ymd b)" by (simp only: assms(3))
  also have "\<dots> = Inr b" by (rule strptime_strftime [OF assms(2)])
  finally show ?thesis by simp
qed

section \<open>The dates of a year\<close>

lemma year_days_nth:
  assumes "1 \<le> y" "y \<le> 9999" "i < days_in_year y"
  shows "valid_date (year_days y ! i)" "year (year_days y ! i) = y" "yday (year_days y ! i) = Suc i"
  using add_days_in_year [OF assms] assms(3) by (simp_all add: year_days_def)

lemma length_year_days: "length (year_days y) = days_in_year y"
  by (simp add: year_days_def)

lemma set_year_days:
  assumes y: "1 \<le> y" "y \<le> 9999"
  shows "set (year_days y) = {d. valid_date d \<and> year d = y}"
proof (intro equalityI subsetI)
  fix d assume "d \<in> set (year_days y)"
  then obtain i where i: "i < days_in_year y" and d: "d = year_days y ! i"
    by (auto simp: in_set_conv_nth length_year_days)
  from year_days_nth [OF y i] show "d \<in> {d. valid_date d \<and> year d = y}"
    unfolding d by simp
next
  fix d assume "d \<in> {d. valid_date d \<and> year d = y}"
  then have v: "valid_date d" and yd: "year d = y" by simp_all
  from yday_le_days_in_year [OF v] have i: "yday d - 1 < days_in_year y"
    unfolding yd by simp
  have "year_days y ! (yday d - 1) = add_days (Date y 1 1) (yday d - 1)"
    using i by (simp add: year_days_def)
  also have "\<dots> = d" using add_days_yday [OF v] unfolding yd .
  finally have "\<exists>i<length (year_days y). year_days y ! i = d"
    using i unfolding length_year_days by blast
  then show "d \<in> set (year_days y)" by (simp only: in_set_conv_nth)
qed

lemma sorted_year_days:
  assumes y: "1 \<le> y" "y \<le> 9999"
  shows "sorted_wrt date_less (year_days y)"
  unfolding sorted_wrt_iff_nth_less length_year_days
proof (intro allI impI)
  fix i j assume ij: "i < j" and j: "j < days_in_year y"
  then have i: "i < days_in_year y" by simp
  show "date_less (year_days y ! i) (year_days y ! j)"
  proof (rule yday_less_date)
    show "valid_date (year_days y ! i)" by (rule year_days_nth [OF y i])
    show "valid_date (year_days y ! j)" by (rule year_days_nth [OF y j])
    show "year (year_days y ! i) = year (year_days y ! j)"
      by (simp only: year_days_nth [OF y i] year_days_nth [OF y j])
    show "yday (year_days y ! i) < yday (year_days y ! j)"
      using ij by (simp only: year_days_nth [OF y i] year_days_nth [OF y j] Suc_less_eq)
  qed
qed

lemma distinct_year_days:
  assumes y: "1 \<le> y" "y \<le> 9999"
  shows "distinct (year_days y)"
  unfolding distinct_conv_nth length_year_days
proof (intro allI impI)
  fix i j assume i: "i < days_in_year y" and j: "j < days_in_year y" and ij: "i \<noteq> j"
  show "year_days y ! i \<noteq> year_days y ! j"
  proof
    assume "year_days y ! i = year_days y ! j"
    then have "yday (year_days y ! i) = yday (year_days y ! j)" by (rule arg_cong)
    then have "Suc i = Suc j" by (simp only: year_days_nth [OF y i] year_days_nth [OF y j])
    with ij show False by simp
  qed
qed

lemma date_range_year_days:
  assumes "1 \<le> y" "y \<le> 9999"
  shows "date_range y = Inr (year_days (nat y))"
proof -
  from assms have "date_range (int (nat y)) = Inr (year_days (nat y))"
    unfolding year_days_def by (intro date_range_eq) simp_all
  with assms show ?thesis by simp
qed

lemma year_days_2024: "year_days 2024 = map (add_days (Date 2024 1 1)) [0 ..< 366]"
  by (simp add: year_days_def days_in_year_def is_leap_def)

lemma consolidated_year_days:
  "consolidated flights codes = Inr (map (merge_entry flights codes) (year_days 2024))"
  by (simp add: consolidated_def date_range_2024 year_days_2024)

lemma merge_entry_Date:
  assumes "flights d = None \<or> (\<exists>row. flights d = Some row \<and> ''Date'' \<notin> fst ` set row)"
  shows "map_of (merge_entry flights codes d) ''Date'' = Some (VStr (strftime_ymd d))"
proof (cases "flights d")
  case None
  then show ?thesis by (cases "codes d") (simp_all add: merge_entry_code merge_entry_off)
next
  case (Some row)
  with assms have "map_of (rev row) ''Date'' = None" by (simp add: map_of_rev_None)
  with Some show ?thesis by (simp add: merge_entry_flight)
qed

lemma distinct_strftime_year_days:
  assumes y: "1 \<le> y" "y \<le> 9999"
  shows "distinct (map strftime_ymd (year_days y))"
proof -
  have "inj_on strftime_ymd (set (year_days y))"
    unfolding set_year_days [OF y] by (rule inj_onI) (simp add: strftime_inj)
  with distinct_year_days [OF y] show ?thesis by (simp add: distinct_map)
qed

lemma strftime_2024_03_15: "strftime_ymd (Date 2024 3 15) = ''2024-03-15''"
  by code_simp

lemma year_days_2024_nth:
  assumes "valid_date d" "year d = 2024"
  shows "year_days 2024 ! (yday d - 1) = d" and "yday d - 1 < 366"
proof -
  from yday_le_days_in_year [OF assms(1)] show lt: "yday d - 1 < 366"
    unfolding assms(2) by (simp add: days_in_year_def is_leap_def)
  have "year_days 2024 ! (yday d - 1) = add_days (Date 2024 1 1) (yday d - 1)"
    using lt by (simp add: year_days_2024)
  also have "\<dots> = d" using add_days_yday [OF assms(1)] unfolding assms(2) .
  finally show "year_days 2024 ! (yday d - 1) = d" .
qed

lemma day_2024_03_15:
  "valid_date (Date 2024 3 15)" "yday (Date 2024 3 15) - 1 = 74"
  by (simp_all add: yday_def days_before_month_def is_leap_def valid_date_def days_in_month_def)

lemma day_2024_03_16:
  "valid_date (Date 2024 3 16)" "yday (Date 2024 3 16) - 1 = 75"
  by (simp_all add: yday_def days_before_month_def is_leap_def valid_date_def days_in_month_def)

lemma year_days_2024_74: "year_days 2024 ! 74 = Date 2024 3 15"
  using year_days_2024_nth(1) [OF day_2024_03_15(1)] unfolding day_2024_03_15(2) by simp

lemma year_days_2024_75: "year_days 2024 ! 75 = Date 2024 3 16"
  using year_days_2024_nth(1) [OF day_2024_03_16(1)] unfolding day_2024_03_16(2) by simp

lemma length_year_days_2024: "length (year_days 2024) = 366"
  by (simp add: length_year_days days_in_year_def is_leap_def)

lemma build_consolidated_of:
  "consolidated flights codes = Inr es \<Longrightarrow> build_consolidated flights codes = Inr (DataFrame es)"
  by (simp add: build_consolidated_def)

lemma consolidated_day:
  assumes "valid_date d" "year d = 2024"
  shows "\<exists>es. consolidated flights codes = Inr es \<and> length es = 366 \<and>
              es ! (yday d - 1) = merge_entry flights codes d"
  unfolding consolidated_year_days
  using year_days_2024_nth [OF assms] by (simp add: length_year_days_2024)

section \<open>Facts about the parsers\<close>

lemma lower_Date: "lower ''Date'' = ''date''" "lower ''Flight'' = ''flight''"
  by code_simp+

lemma parse_csv_report:
  "parse_csv dayfirst_15_03 report_csv =
     Inr [Date 2024 3 15 \<mapsto> [(''Date'', VDate (Date 2024 3 15)), (''Flight'', VStr ''AZ100'')]]"
  by (simp add: parse_csv_def report_csv_def lower_Date set_column_def column_values_def
      index_flights_def iterrows_def dayfirst_15_03_def date_cell_def notnull_def)

lemma truthy_date_cell: "truthy (date_cell ts)"
  by (cases ts) (simp_all add: truthy_def date_cell_def)

lemma parse_row_entry:
  "parse_row to_datetime row m =
     (case row_entry to_datetime row of None \<Rightarrow> m | Some (dt, code) \<Rightarrow> m(dt \<mapsto> code))"
  by (simp add: parse_row_def row_entry_def Let_def split: list.splits option.splits sum.splits)

lemma fold_concat_map:
  "fold f (concat (map g xs)) a = fold (\<lambda>x. fold f (g x)) xs a"
  by (induction xs arbitrary: a) simp_all

lemma parse_page_rows: "parse_page to_datetime page m = fold (parse_row to_datetime) (page_rows page) m"
  by (simp add: parse_page_def page_rows_def split: option.splits)

lemma parse_pdfs_all_rows:
  "parse_pdfs to_datetime pdf_dir = fold (parse_row to_datetime) (all_rows pdf_dir) Map.empty"
proof -
  have pdf: "fold (parse_page to_datetime) pdf m =
      fold (parse_row to_datetime) (concat (map page_rows pdf)) m" for pdf m
    by (simp add: fold_concat_map parse_page_rows [abs_def])
  have one_file: "(case pdf_dir fname of None \<Rightarrow> m | Some pdf \<Rightarrow> fold (parse_page to_datetime) pdf m) =
      fold (parse_row to_datetime)
        (case pdf_dir fname of None \<Rightarrow> [] | Some pdf \<Rightarrow> concat (map page_rows pdf)) m" for fname m
    by (simp add: pdf split: option.splits)
  show ?thesis
    unfolding parse_pdfs_def all_rows_def fold_concat_map one_file ..
qed

lemma fold_parse_row_skip:
  assumes "\<forall>r\<in>set rs. \<forall>c. row_entry to_datetime r \<noteq> Some (d, c)"
  shows "fold (parse_row to_datetime) rs m d = m d"
  using assms
proof (induction rs arbitrary: m)
  case Nil
  show ?case by simp
next
  case (Cons r rs)
  then have "fold (parse_row to_datetime) rs (parse_row to_datetime r m) d = parse_row to_datetime r m d"
    by simp
  also have "\<dots> = m d"
    using Cons.prems by (auto simp: parse_row_entry split: option.splits)
  finally show ?case by simp
qed

lemma fold_parse_row_last:
  assumes "row_entry to_datetime r = Some (d, c)"
    and "\<forall>r'\<in>set rs2. \<forall>c'. row_entry to_datetime r' \<noteq> Some (d, c')"
  shows "fold (parse_row to_datetime) (rs1 @ r # rs2) m d = Some c"
proof -
  have "fold (parse_row to_datetime) (rs1 @ r # rs2) m d =
        parse_row to_datetime r (fold (parse_row to_datetime) rs1 m) d"
    using fold_parse_row_skip [OF assms(2)] by simp
  also have "\<dots> = Some c" using assms(1) by (simp add: parse_row_entry)
  finally show ?thesis .
qed

section \<open>Facts about overwriting a sheet\<close>

lemma cell_value_set_value:
  "cell_value (set_value r c v ws) r' c' = (if r' = r \<and> c' = c then v else cell_value ws r' c')"
  by (simp add: cell_value_def set_value_def update_conv')

lemma cell_value_touch: "cell_value (touch r c ws) r' c' = cell_value ws r' c'"
proof (cases "(r, c) \<in> fst ` set ws")
  case True
  then show ?thesis by (simp add: touch_def)
next
  case False
  then have "map_of ws (r, c) = None" by (simp add: map_of_eq_None_iff)
  with False show ?thesis
    by (simp add: touch_def cell_value_def map_add_def split: option.splits)
qed

lemma cell_value_fold_touch: "cell_value (fold (touch r) cs ws) r' c' = cell_value ws r' c'"
  by (induction cs arbitrary: ws) (simp_all add: cell_value_touch)

lemma cell_value_write_timeline_row:
  "cell_value (write_timeline_row h i row ws) r c =
     (if r = i \<and> 1 \<le> c \<and> c \<le> h \<and> c \<le> length row then row ! (c - 1) else cell_value ws r c)"
proof (induction row rule: rev_induct)
  case Nil
  show ?case by (auto simp: write_timeline_row_def enumerate_eq_zip)
next
  case (snoc v row)
  have step: "write_timeline_row h i (row @ [v]) ws =
      (if length row < h then set_value i (length row + 1) v (write_timeline_row h i row ws)
       else write_timeline_row h i row ws)"
    by (simp add: write_timeline_row_def enumerate_append_eq)
  show ?case
    unfolding step using snoc.IH
    by (auto simp: cell_value_set_value nth_append)
qed

lemma cell_value_write_rows:
  "cell_value (fold (\<lambda>(i, row) ws. write_timeline_row h i row ws) (enumerate n rs) ws) r c =
     (if n \<le> r \<and> r < n + length rs \<and> 1 \<le> c \<and> c \<le> h \<and> c \<le> length (rs ! (r - n))
      then rs ! (r - n) ! (c - 1) else cell_value ws r c)"
proof (induction rs rule: rev_induct)
  case Nil
  show ?case by (auto simp: enumerate_eq_zip)
next
  case (snoc row rs)
  have "r - n = length rs" if "r = n + length rs" using that by simp
  then show ?case
    using snoc.IH
    by (auto simp: enumerate_append_eq cell_value_write_timeline_row nth_append)
qed

lemma cell_value_overwrite_sheet:
  "cell_value (overwrite_sheet df ws) r c =
     (if 2 \<le> r \<and> r < 2 + length (rows df) \<and> 1 \<le> c \<and> c \<le> max_column ws \<and>
         c \<le> length (rows df ! (r - 2))
      then rows df ! (r - 2) ! (c - 1) else cell_value ws r c)"
  by (simp add: overwrite_sheet_def header_row_def cell_value_write_rows cell_value_fold_touch)

lemma overwrite_files_ok:
  assumes "distinct ns" "\<forall>n\<in>set ns. \<exists>ws. map_of dir n = Some (Workbook ws)"
  shows "\<exists>dir'. overwrite_files df ns dir = (dir', None) \<and>
           (\<forall>n. map_of dir' n =
                 (if n \<in> set ns then map_option (overwritten df) (map_of dir n) else map_of dir n))"
  using assms
proof (induction ns arbitrary: dir)
  case Nil
  show ?case by simp
next
  case (Cons a ns)
  from Cons.prems obtain ws where a: "map_of dir a = Some (Workbook ws)" by auto
  let ?dir = "AList.update a (Workbook (overwrite_sheet df ws)) dir"
  from Cons.prems have d: "distinct ns" and na: "a \<notin> set ns" by simp_all
  have "\<forall>n\<in>set ns. \<exists>ws. map_of ?dir n = Some (Workbook ws)"
    using Cons.prems(2) na by (auto simp: update_conv')
  from Cons.IH [OF d this] obtain dir' where r: "overwrite_files df ns ?dir = (dir', None)"
    and m: "\<forall>n. map_of dir' n =
                 (if n \<in> set ns then map_option (overwritten df) (map_of ?dir n) else map_of ?dir n)"
    by blast
  have "overwrite_files df (a # ns) dir = (dir', None)" using a r by simp
  moreover have "map_of dir' n =
      (if n \<in> set (a # ns) then map_option (overwritten df) (map_of dir n) else map_of dir n)" for n
    using m [rule_format, of n] na a by (auto simp: update_conv' overwritten_def)
  ultimately show ?case by blast
qed

lemma all_rows_duty_logs:
  "all_rows duty_logs =
     [[Some ''10/06/2024'', Some ''RI''], [Some ''Data'', Some ''Codice'']] @
     [Some ''10/06/2024'', Some '' FE ''] # []"
  by (simp add: all_rows_def duty_logs_def PDF_MONTHS_def page_rows_def)

lemma strip_FE: "strip '' FE '' = ''FE''"
  by (simp add: strip_def is_space_def)

lemma header_template_sheet: "length (fst (header_row template_sheet)) = 2"
  by (simp add: header_row_def max_column_def template_sheet_def)

section \<open>Facts about writing a table into a template\<close>

lemma max_column_Max: "max_column ws = Max (insert 1 (snd ` fst ` set ws))"
proof -
  have "fold max xs (a::nat) = Max (insert a (set xs))" for xs a
    using Max.set_eq_fold [of a xs] by simp
  then have "max_column ws = Max (insert 1 (set (map (\<lambda>kv. snd (fst kv)) ws)))"
    by (simp add: max_column_def)
  also have "set (map (\<lambda>kv. snd (fst kv)) ws) = snd ` fst ` set ws"
    by (simp add: image_image)
  finally show ?thesis .
qed

lemma max_column_ge_1: "1 \<le> max_column ws"
  unfolding max_column_Max by (rule Max_ge) simp_all

lemma max_column_insert:
  assumes "fst ` set ws' = insert (r, c) (fst ` set ws)"
  shows "max_column ws' = max c (max_column ws)"
proof -
  have "snd ` fst ` set ws' = insert c (snd ` fst ` set ws)"
    unfolding assms by simp
  then have "max_column ws' = Max (insert c (insert 1 (snd ` fst ` set ws)))"
    unfolding max_column_Max by (simp add: insert_commute)
  also have "\<dots> = max c (Max (insert 1 (snd ` fst ` set ws)))"
    by (rule Max_insert) simp_all
  finally show ?thesis unfolding max_column_Max .
qed

lemma max_column_touch: "c \<le> max_column ws \<Longrightarrow> max_column (touch r c ws) = max_column ws"
proof (cases "(r, c) \<in> fst ` set ws")
  case True
  then show ?thesis by (simp add: touch_def)
next
  case False
  assume le: "c \<le> max_column ws"
  from False have "fst ` set (touch r c ws) = insert (r, c) (fst ` set ws)"
    by (simp add: touch_def)
  from max_column_insert [OF this] le show ?thesis by simp
qed

lemma max_column_set_value: "c \<le> max_column ws \<Longrightarrow> max_column (set_value r c v ws) = max_column ws"
proof -
  assume le: "c \<le> max_column ws"
  have "fst ` set (set_value r c v ws) = insert (r, c) (fst ` set ws)"
    by (simp add: set_value_def dom_update)
  from max_column_insert [OF this] le show ?thesis by simp
qed

lemma cell_value_beyond:
  assumes "max_column ws < c"
  shows "cell_value ws r c = VNone"
proof -
  have "(r, c) \<notin> fst ` set ws"
  proof
    assume "(r, c) \<in> fst ` set ws"
    then have "c \<in> insert 1 (snd ` fst ` set ws)" by force
    then have "c \<le> max_column ws" unfolding max_column_Max by (intro Max_ge) simp_all
    with assms show False by simp
  qed
  then have "map_of ws (r, c) = None" by (simp add: map_of_eq_None_iff)
  then show ?thesis by (simp add: cell_value_def)
qed

lemma clear_cell_ok:
  assumes "1 \<le> r" "1 \<le> c"
  shows "\<exists>ws'. clear_cell r c ws = Inr ws' \<and>
           (\<forall>r' c'. cell_value ws' r' c' = (if r' = r \<and> c' = c then VNone else cell_value ws r' c')) \<and>
           (c \<le> max_column ws \<longrightarrow> max_column ws' = max_column ws)"
proof -
  let ?t = "touch r c ws"
  let ?ws = "if cell_value ?t r c \<noteq> VNone then set_value r c VNone ?t else ?t"
  from assms have "clear_cell r c ws = Inr ?ws"
    by (simp add: clear_cell_def ws_cell_def)
  moreover have "cell_value ?ws r' c' = (if r' = r \<and> c' = c then VNone else cell_value ws r' c')"
    for r' c'
    by (auto simp: cell_value_set_value cell_value_touch)
  moreover have "c \<le> max_column ws \<longrightarrow> max_column ?ws = max_column ws"
    by (simp add: max_column_set_value max_column_touch)
  ultimately show ?thesis by blast
qed

lemma clear_cells_ok:
  assumes "1 \<le> r" "\<forall>c\<in>set cs. 1 \<le> c \<and> c \<le> max_column ws"
  shows "\<exists>ws'. for_each (clear_cell r) cs ws = Inr ws' \<and>
           (\<forall>r' c'. cell_value ws' r' c' = (if r' = r \<and> c' \<in> set cs then VNone else cell_value ws r' c')) \<and>
           max_column ws' = max_column ws"
  using assms(2)
proof (induction cs arbitrary: ws)
  case Nil
  show ?case by simp
next
  case (Cons c cs)
  then have c: "1 \<le> c" "c \<le> max_column ws" by simp_all
  from clear_cell_ok [OF assms(1) c(1), of ws] c(2) obtain ws1 where
    s1: "clear_cell r c ws = Inr ws1"
    and v1: "\<And>r' c'. cell_value ws1 r' c' = (if r' = r \<and> c' = c then VNone else cell_value ws r' c')"
    and m1: "max_column ws1 = max_column ws"
    by blast
  from Cons.prems have "\<forall>c\<in>set cs. 1 \<le> c \<and> c \<le> max_column ws1" by (simp add: m1)
  from Cons.IH [OF this] obtain ws2 where
    s2: "for_each (clear_cell r) cs ws1 = Inr ws2"
    and v2: "\<And>r' c'. cell_value ws2 r' c' = (if r' = r \<and> c' \<in> set cs then VNone else cell_value ws1 r' c')"
    and m2: "max_column ws2 = max_column ws1"
    by blast
  have "for_each (clear_cell r) (c # cs) ws = Inr ws2" by (simp add: s1 s2)
  moreover have "cell_value ws2 r' c' =
      (if r' = r \<and> c' \<in> set (c # cs) then VNone else cell_value ws r' c')" for r' c'
    by (auto simp: v2 v1)
  moreover have "max_column ws2 = max_column ws" by (simp add: m1 m2)
  ultimately show ?case by blast
qed

lemma clear_row_ok:
  assumes "1 \<le> r"
  shows "\<exists>ws'. clear_row r ws = Inr ws' \<and>
           (\<forall>r' c'. cell_value ws' r' c' =
               (if r' = r \<and> 1 \<le> c' \<and> c' \<le> max_column ws then VNone else cell_value ws r' c')) \<and>
           max_column ws' = max_column ws"
proof -
  have "\<forall>c\<in>set [1 ..< max_column ws + 1]. 1 \<le> c \<and> c \<le> max_column ws" by auto
  moreover have "c' \<in> set [1 ..< max_column ws + 1] \<longleftrightarrow> 1 \<le> c' \<and> c' \<le> max_column ws" for c'
    by auto
  ultimately show ?thesis
    using clear_cells_ok [OF assms, of "[1 ..< max_column ws + 1]" ws]
    unfolding clear_row_def by simp
qed

lemma clear_rows_ok:
  assumes "\<forall>r\<in>set rs. 1 \<le> r"
  shows "\<exists>ws'. for_each clear_row rs ws = Inr ws' \<and>
           (\<forall>r' c'. cell_value ws' r' c' =
               (if r' \<in> set rs \<and> 1 \<le> c' \<and> c' \<le> max_column ws then VNone else cell_value ws r' c')) \<and>
           max_column ws' = max_column ws"
  using assms
proof (induction rs arbitrary: ws)
  case Nil
  show ?case by simp
next
  case (Cons r rs)
  then have r: "1 \<le> r" and rs: "\<forall>r\<in>set rs. 1 \<le> r" by simp_all
  from clear_row_ok [OF r, of ws] obtain ws1 where
    s1: "clear_row r ws = Inr ws1"
    and v1: "\<And>r' c'. cell_value ws1 r' c' =
               (if r' = r \<and> 1 \<le> c' \<and> c' \<le> max_column ws then VNone else cell_value ws r' c')"
    and m1: "max_column ws1 = max_column ws"
    by blast
  from Cons.IH [OF rs, of ws1] obtain ws2 where
    s2: "for_each clear_row rs ws1 = Inr ws2"
    and v2: "\<And>r' c'. cell_value ws2 r' c' =
               (if r' \<in> set rs \<and> 1 \<le> c' \<and> c' \<le> max_column ws1 then VNone else cell_value ws1 r' c')"
    and m2: "max_column ws2 = max_column ws1"
    by blast
  have "for_each clear_row (r # rs) ws = Inr ws2" by (simp add: s1 s2)
  moreover have "cell_value ws2 r' c' =
      (if r' \<in> set (r # rs) \<and> 1 \<le> c' \<and> c' \<le> max_column ws then VNone else cell_value ws r' c')"
    for r' c'
    by (auto simp: v2 v1 m1)
  moreover have "max_column ws2 = max_column ws" by (simp add: m1 m2)
  ultimately show ?case by blast
qed

lemma clear_row_error: "clear_row 0 ws = Inl ValueError"
proof -
  have "[1 ..< max_column ws + 1] = 1 # [Suc 1 ..< max_column ws + 1]"
    using max_column_ge_1 [of ws] by (intro upt_conv_Cons) simp
  then show ?thesis by (simp add: clear_row_def clear_cell_def ws_cell_def)
qed

lemma ws_cell_value_ok:
  assumes "1 \<le> r" "1 \<le> c"
  shows "\<exists>ws'. ws_cell_value r c v ws = Inr ws' \<and>
           (\<forall>r' c'. cell_value ws' r' c' =
               (if r' = r \<and> c' = c \<and> v \<noteq> VNone then v else cell_value ws r' c'))"
proof -
  let ?ws = "if v \<noteq> VNone then set_value r c v (touch r c ws) else touch r c ws"
  from assms have "ws_cell_value r c v ws = Inr ?ws"
    by (simp add: ws_cell_value_def ws_cell_def)
  moreover have "cell_value ?ws r' c' =
      (if r' = r \<and> c' = c \<and> v \<noteq> VNone then v else cell_value ws r' c')" for r' c'
    by (auto simp: cell_value_set_value cell_value_touch)
  ultimately show ?thesis by blast
qed

lemma write_cells_ok:
  assumes "1 \<le> r" "1 \<le> sc"
  shows "\<exists>ws'. for_each (\<lambda>(j, v). ws_cell_value r (sc + j) v) (enumerate n row) ws = Inr ws' \<and>
           (\<forall>r' c'. cell_value ws' r' c' =
               (if r' = r \<and> sc + n \<le> c' \<and> c' < sc + n + length row \<and> row ! (c' - (sc + n)) \<noteq> VNone
                then row ! (c' - (sc + n)) else cell_value ws r' c'))"
proof (induction row arbitrary: n ws)
  case Nil
  show ?case by auto
next
  case (Cons x row)
  from assms have "1 \<le> sc + n" by simp
  from ws_cell_value_ok [OF assms(1) this, of x ws] obtain ws1 where
    s1: "ws_cell_value r (sc + n) x ws = Inr ws1"
    and v1: "\<And>r' c'. cell_value ws1 r' c' =
               (if r' = r \<and> c' = sc + n \<and> x \<noteq> VNone then x else cell_value ws r' c')"
    by blast
  from Cons.IH [of "Suc n" ws1] obtain ws2 where
    s2: "for_each (\<lambda>(j, v). ws_cell_value r (sc + j) v) (enumerate (Suc n) row) ws1 = Inr ws2"
    and v2: "\<And>r' c'. cell_value ws2 r' c' =
               (if r' = r \<and> sc + Suc n \<le> c' \<and> c' < sc + Suc n + length row \<and>
                   row ! (c' - (sc + Suc n)) \<noteq> VNone
                then row ! (c' - (sc + Suc n)) else cell_value ws1 r' c')"
    by blast
  have "for_each (\<lambda>(j, v). ws_cell_value r (sc + j) v) (enumerate n (x # row)) ws = Inr ws2"
    by (simp add: s1 s2)
  moreover have "cell_value ws2 r' c' =
      (if r' = r \<and> sc + n \<le> c' \<and> c' < sc + n + length (x # row) \<and>
          (x # row) ! (c' - (sc + n)) \<noteq> VNone
       then (x # row) ! (c' - (sc + n)) else cell_value ws r' c')" for r' c'
  proof (cases "c' = sc + n")
    case True
    then show ?thesis by (simp add: v2 v1)
  next
    case False
    have "(x # row) ! (c' - (sc + n)) = row ! (c' - (sc + Suc n))" if "sc + n < c'"
      using that by (simp add: nth_Cons')
    with False show ?thesis
      by (auto simp: v2 v1)
  qed
  ultimately show ?case by blast
qed

lemma write_df_row_ok:
  assumes "1 \<le> sr" "1 \<le> sc"
  shows "\<exists>ws'. write_df_row sr sc (i, row) ws = Inr ws' \<and>
           (\<forall>r' c'. cell_value ws' r' c' =
               (if r' = sr + i \<and> sc \<le> c' \<and> c' < sc + length row \<and> row ! (c' - sc) \<noteq> VNone
                then row ! (c' - sc) else cell_value ws r' c'))"
proof -
  from assms have "1 \<le> sr + i" by simp
  from write_cells_ok [OF this assms(2), of 0 row ws] obtain ws' where
    s: "for_each (\<lambda>(j, v). ws_cell_value (sr + i) (sc + j) v) (enumerate 0 row) ws = Inr ws'"
    and v: "\<And>r' c'. cell_value ws' r' c' =
               (if r' = sr + i \<and> sc + 0 \<le> c' \<and> c' < sc + 0 + length row \<and>
                   row ! (c' - (sc + 0)) \<noteq> VNone
                then row ! (c' - (sc + 0)) else cell_value ws r' c')"
    by blast
  have "write_df_row sr sc (i, row) ws = Inr ws'" by (simp add: write_df_row_def s)
  moreover have "cell_value ws' r' c' =
      (if r' = sr + i \<and> sc \<le> c' \<and> c' < sc + length row \<and> row ! (c' - sc) \<noteq> VNone
       then row ! (c' - sc) else cell_value ws r' c')" for r' c'
    using v [of r' c'] by simp
  ultimately show ?thesis by blast
qed

lemma write_df_rows_ok:
  assumes "1 \<le> sr" "1 \<le> sc"
  shows "\<exists>ws'. for_each (write_df_row sr sc) (enumerate n rs) ws = Inr ws' \<and>
           (\<forall>r' c'. cell_value ws' r' c' =
               (if sr + n \<le> r' \<and> r' < sr + n + length rs \<and> sc \<le> c' \<and>
                   c' < sc + length (rs ! (r' - (sr + n))) \<and>
                   rs ! (r' - (sr + n)) ! (c' - sc) \<noteq> VNone
                then rs ! (r' - (sr + n)) ! (c' - sc) else cell_value ws r' c'))"
proof (induction rs arbitrary: n ws)
  case Nil
  show ?case by auto
next
  case (Cons row rs)
  from write_df_row_ok [OF assms, of n row ws] obtain ws1 where
    s1: "write_df_row sr sc (n, row) ws = Inr ws1"
    and v1: "\<And>r' c'. cell_value ws1 r' c' =
               (if r' = sr + n \<and> sc \<le> c' \<and> c' < sc + length row \<and> row ! (c' - sc) \<noteq> VNone
                then row ! (c' - sc) else cell_value ws r' c')"
    by blast
  from Cons.IH [of "Suc n" ws1] obtain ws2 where
    s2: "for_each (write_df_row sr sc) (enumerate (Suc n) rs) ws1 = Inr ws2"
    and v2: "\<And>r' c'. cell_value ws2 r' c' =
               (if sr + Suc n \<le> r' \<and> r' < sr + Suc n + length rs \<and> sc \<le> c' \<and>
                   c' < sc + length (rs ! (r' - (sr + Suc n))) \<and>
                   rs ! (r' - (sr + Suc n)) ! (c' - sc) \<noteq> VNone
                then rs ! (r' - (sr + Suc n)) ! (c' - sc) else cell_value ws1 r' c')"
    by blast
  have "for_each (write_df_row sr sc) (enumerate n (row # rs)) ws = Inr ws2"
    by (simp add: s1 s2)
  moreover have "cell_value ws2 r' c' =
      (if sr + n \<le> r' \<and> r' < sr + n + length (row # rs) \<and> sc \<le> c' \<and>
          c' < sc + length ((row # rs) ! (r' - (sr + n))) \<and>
          (row # rs) ! (r' - (sr + n)) ! (c' - sc) \<noteq> VNone
       then (row # rs) ! (r' - (sr + n)) ! (c' - sc) else cell_value ws r' c')" for r' c'
  proof (cases "r' = sr + n")
    case True
    then show ?thesis by (simp add: v2 v1)
  next
    case False
    have "(row # rs) ! (r' - (sr + n)) = rs ! (r' - (sr + Suc n))" if "sr + n < r'"
      using that by (simp add: nth_Cons')
    with False show ?thesis
      by (auto simp: v2 v1)
  qed
  ultimately show ?case by blast
qed

lemma sort_months: "sort (filter glob_2024_pdf PDF_MONTHS) =
  [''AGOSTO_2024.pdf'', ''APRILE_2024.pdf'', ''DICEMBRE_2024.pdf'', ''FEBBRAIO_2024.pdf'',
   ''GENNAIO_2024.pdf'', ''GIUGNO_2024.pdf'', ''LUGLIO_2024.pdf'', ''MAGGIO_2024.pdf'',
   ''MARZO_2024.pdf'', ''NOVEMBRE_2024.pdf'', ''OTTOBRE_2024.pdf'', ''SETTEMBRE_2024.pdf'']"
  by code_simp

section \<open>Facts about the per-month run\<close>

lemma find_template_cong:
  "template_dir st' = template_dir st \<Longrightarrow> find_template st' k = find_template st k"
  by (simp add: find_template_def split: option.splits)

lemma process_month_pdf_template_dir:
  "template_dir (snd (process_month_pdf ex p st)) = template_dir st"
  by (simp add: process_month_pdf_def Let_def split: sum.splits prod.splits)

lemma process_month_pdf_item:
  "fst (process_month_pdf ex p st) = item_result ex (template_dir st) p \<and>
   stdout (snd (process_month_pdf ex p st)) = stdout st @ item_messages ex (template_dir st) p"
proof -
  let ?b = "\<lparr>data_dir = [], template_dir = template_dir st, output_dir = Map.empty, stdout = []\<rparr>"
  have ft: "find_template ?b (month_key_of p) = find_template st (month_key_of p)"
    by (rule find_template_cong) simp
  show ?thesis
  proof (cases "find_template st (month_key_of p)")
    case (Inl e)
    then show ?thesis
      by (simp add: item_result_def item_messages_def process_month_pdf_def ft)
  next
    case (Inr found)
    obtain tn t where found: "found = (tn, t)" by (cases found)
    note f = Inr [unfolded found]
    show ?thesis
    proof (cases "ex p")
      case (Inl e)
      then show ?thesis
        by (simp add: item_result_def item_messages_def process_month_pdf_def Let_def ft f)
    next
      case df: (Inr df)
      show ?thesis
      proof (cases "empty_df df")
        case True
        then show ?thesis
          by (simp add: item_result_def item_messages_def process_month_pdf_def Let_def ft f df)
      next
        case False
        then show ?thesis
          by (cases "write_df_into_workbook t (dropna_columns df) WRITE_START_ROW WRITE_START_COL")
            (simp_all add: item_result_def item_messages_def process_month_pdf_def Let_def ft f df)
      qed
    qed
  qed
qed

lemma process_month_pdf_missing:
  assumes "template_dir st (month_key_of p @ '' 2023.xlsx'') = None"
    and "template_dir st ''2023.xlsx'' = None"
  shows "process_month_pdf ex p st = (Inl (FileNotFoundError (month_key_of p)), st)"
  using assms by (simp add: process_month_pdf_def find_template_def)

lemma main_loop_append:
  "main_loop ex (ps @ qs) acc = main_loop ex qs (main_loop ex ps acc)"
proof (induction ps arbitrary: acc)
  case Nil
  show ?case by (cases acc) simp
next
  case (Cons p ps)
  obtain created st where acc: "acc = (created, st)" by (cases acc)
  obtain res st' where r: "process_month_pdf ex p st = (res, st')"
    by (cases "process_month_pdf ex p st")
  show ?case by (cases res) (simp_all add: acc r Cons.IH)
qed

lemma main_loop_template_dir:
  "template_dir (snd (main_loop ex ps (created, st))) = template_dir st"
proof (induction ps arbitrary: created st)
  case Nil
  show ?case by simp
next
  case (Cons p ps)
  obtain res st' where r: "process_month_pdf ex p st = (res, st')"
    by (cases "process_month_pdf ex p st")
  from process_month_pdf_template_dir [of ex p st] r have t: "template_dir st' = template_dir st"
    by simp
  show ?case by (cases res) (simp_all add: r Cons.IH t)
qed

lemma main_loop_created:
  "fst (main_loop ex ps (created, st)) =
     created @ List.map_filter (item_output ex (template_dir st)) ps"
proof (induction ps arbitrary: created st)
  case Nil
  show ?case by (simp add: List.map_filter_simps)
next
  case (Cons p ps)
  obtain res st' where r: "process_month_pdf ex p st = (res, st')"
    by (cases "process_month_pdf ex p st")
  from process_month_pdf_template_dir [of ex p st] r have t: "template_dir st' = template_dir st"
    by simp
  from process_month_pdf_item [of ex p st] r have res: "res = item_result ex (template_dir st) p"
    by simp
  show ?case
  proof (cases res)
    case (Inl e)
    with res have "item_result ex (template_dir st) p = Inl e" by simp
    then have "item_output ex (template_dir st) p = None" by (simp add: item_output_def)
    with Inl show ?thesis by (simp add: r Cons.IH List.map_filter_simps t)
  next
    case (Inr out)
    with res have "item_result ex (template_dir st) p = Inr out" by simp
    then have "item_output ex (template_dir st) p = Some out" by (simp add: item_output_def)
    with Inr show ?thesis by (simp add: r Cons.IH List.map_filter_simps t)
  qed
qed

lemma main_loop_stdout:
  "stdout (snd (main_loop ex ps (created, st))) =
     stdout st @
     concat (map (\<lambda>p. item_messages ex (template_dir st) p @
                       (case item_result ex (template_dir st) p of
                          Inl e \<Rightarrow> [ErrorProcessing p e] | Inr out \<Rightarrow> [])) ps)"
proof (induction ps arbitrary: created st)
  case Nil
  show ?case by simp
next
  case (Cons p ps)
  obtain res st' where r: "process_month_pdf ex p st = (res, st')"
    by (cases "process_month_pdf ex p st")
  from process_month_pdf_template_dir [of ex p st] r have t: "template_dir st' = template_dir st"
    by simp
  from process_month_pdf_item [of ex p st] r have res: "res = item_result ex (template_dir st) p"
    and out: "stdout st' = stdout st @ item_messages ex (template_dir st) p"
    by simp_all
  show ?case
  proof (cases res)
    case (Inl e)
    with res [symmetric] show ?thesis by (simp add: r Cons.IH t out)
  next
    case (Inr o)
    with res [symmetric] show ?thesis by (simp add: r Cons.IH t out)
  qed
qed

lemma pdf_files_example: "pdf_files example_files = [''EXTRA_2024.pdf'', ''MARZO_2024.pdf'']"
  unfolding pdf_files_def example_files_def by code_simp

lemma month_keys: "month_key_of ''EXTRA_2024.pdf'' = ''EXTRA''" "month_key_of ''MARZO_2024.pdf'' = ''MARZO''"
  by code_simp+

lemma process_marzo:
  assumes "template_dir st = [''MARZO 2023.xlsx'' \<mapsto> march_template]"
  shows "process_month_pdf no_tables ''MARZO_2024.pdf'' st =
     (Inr ''MARZO 2024.xlsx'',
      st\<lparr>output_dir := (output_dir st)(''MARZO 2024.xlsx'' \<mapsto> march_template),
         stdout := stdout st @ [Copied ''MARZO 2023.xlsx'' ''MARZO 2024.xlsx'', NoTables ''MARZO_2024.pdf'']\<rparr>)"
  by (simp add: process_month_pdf_def Let_def month_keys find_template_def assms no_tables_def empty_df_def)

lemma item_marzo:
  "item_result no_tables [''MARZO 2023.xlsx'' \<mapsto> march_template] ''MARZO_2024.pdf'' = Inr ''MARZO 2024.xlsx''"
  "item_messages no_tables [''MARZO 2023.xlsx'' \<mapsto> march_template] ''MARZO_2024.pdf'' =
     [Copied ''MARZO 2023.xlsx'' ''MARZO 2024.xlsx'', NoTables ''MARZO_2024.pdf'']"
  by (simp_all add: item_result_def item_messages_def process_marzo)

lemma item_extra:
  "item_result no_tables [''MARZO 2023.xlsx'' \<mapsto> march_template] ''EXTRA_2024.pdf'' =
     Inl (FileNotFoundError ''EXTRA'')"
  "item_messages no_tables [''MARZO 2023.xlsx'' \<mapsto> march_template] ''EXTRA_2024.pdf'' = []"
  by (simp_all add: item_result_def item_messages_def process_month_pdf_missing month_keys)

section \<open>Facts about the summary\<close>

lemma group_months_error:
  assumes "\<forall>r\<in>set rs1. row_month r \<noteq> None"
    and "map_of r ''Date'' = Some v" "strptime_cell v = Inl e"
  shows "group_months (rs1 @ r # rs2) months = Inl e"
  using assms(1)
proof (induction rs1 arbitrary: months)
  case Nil
  show ?case by (simp add: assms(2,3))
next
  case (Cons a rs1)
  then have "row_month a \<noteq> None" by simp
  then obtain w dt where "map_of a ''Date'' = Some w" "strptime_cell w = Inr dt"
    by (auto simp: row_month_def split: option.splits sum.splits)
  with Cons show ?case by simp
qed

lemma strptime_space_day: "strptime_ymd ''2024-01- 5'' = Inr (Date 2024 1 5)"
  by code_simp

section \<open>The table of the consolidated timeline\<close>

lemma set_first_seen: "set (first_seen seen xs) = set xs - set seen"
  by (induction seen xs rule: first_seen.induct) auto

lemma columns_DataFrame: "set (columns (DataFrame es)) = (\<Union>e\<in>set es. fst ` set e)"
  by (simp add: DataFrame_def Let_def set_first_seen)

lemma length_iterrows_DataFrame: "length (iterrows (DataFrame es)) = length es"
  by (simp add: iterrows_def DataFrame_def Let_def)

lemma iterrows_DataFrame_nth:
  assumes "i < length es"
  shows "iterrows (DataFrame es) ! i =
     zip (columns (DataFrame es))
       (map (\<lambda>c. convert_object_array
                    (map (\<lambda>e. case map_of e c of Some v \<Rightarrow> v | None \<Rightarrow> VNaN) es) ! i)
          (columns (DataFrame es)))"
  using assms by (simp add: iterrows_def DataFrame_def Let_def)

lemma convert_object_array_object:
  assumes "i < length arr" "is_object (arr ! i)"
  shows "convert_object_array arr ! i = arr ! i"
proof -
  from assms have "arr ! i \<in> set arr" by simp
  with assms(2) have "list_ex is_object arr" unfolding list_ex_iff by blast
  then show ?thesis by (simp add: convert_object_array_def)
qed

text \<open>A string or a date of an entry is the value of its row in the table.\<close>

lemma DataFrame_row_object:
  assumes "i < length es" "map_of (es ! i) k = Some v" "is_object v"
  shows "map_of (iterrows (DataFrame es) ! i) k = Some v"
proof -
  let ?arr = "\<lambda>c. map (\<lambda>e. case map_of e c of Some v \<Rightarrow> v | None \<Rightarrow> VNaN) es"
  from assms(2) have "k \<in> fst ` set (es ! i)" by (metis domI dom_map_of_conv_image_fst)
  moreover from assms(1) have "es ! i \<in> set es" by simp
  ultimately have k: "k \<in> set (columns (DataFrame es))" unfolding columns_DataFrame by blast
  from assms(1,2) have "?arr k ! i = v" by simp
  with assms(1,3) convert_object_array_object [of i "?arr k"]
  have "convert_object_array (?arr k) ! i = v" by simp
  with k show ?thesis
    unfolding iterrows_DataFrame_nth [OF assms(1)] by (simp add: map_of_zip_map)
qed

lemma timeline_row_free:
  assumes "i < 366" "flights (year_days 2024 ! i) = None"
  shows "row_month (iterrows (DataFrame (map (merge_entry flights codes) (year_days 2024))) ! i) \<noteq> None"
proof -
  let ?d = "year_days 2024 ! i"
  let ?es = "map (merge_entry flights codes) (year_days 2024)"
  have y: "(1::nat) \<le> 2024" "(2024::nat) \<le> 9999" by simp_all
  from assms(1) have "?d \<in> set (year_days 2024)" by (simp add: length_year_days_2024)
  then have v: "valid_date ?d" unfolding set_year_days [OF y] by simp
  from assms(1) have len: "i < length ?es" by (simp add: length_year_days_2024)
  from assms(1) have e: "?es ! i = merge_entry flights codes ?d"
    by (simp add: length_year_days_2024)
  from assms(2) have "map_of (merge_entry flights codes ?d) ''Date'' = Some (VStr (strftime_ymd ?d))"
    by (intro merge_entry_Date) simp
  then have "map_of (?es ! i) ''Date'' = Some (VStr (strftime_ymd ?d))" by (simp only: e)
  from DataFrame_row_object [OF len this]
  have "map_of (iterrows (DataFrame ?es) ! i) ''Date'' = Some (VStr (strftime_ymd ?d))"
    by (simp add: is_object_def)
  then show ?thesis
    by (simp add: row_month_def strptime_cell_def strptime_strftime [OF v])
qed

text \<open>
  When every flight record of a day of 2024 holds a date object under \<open>Date\<close>, and there is
  such a record, the first loop of the renderer raises at the first day with a record: the
  rows before it parse, and \<open>strptime\<close> refuses the date object.
\<close>

lemma renderer_raises:
  fixes flights :: "date \<rightharpoonup> entry"
  assumes some: "\<exists>d\<in>set (year_days 2024). flights d \<noteq> None"
    and dates: "\<forall>d\<in>set (year_days 2024). \<forall>row. flights d = Some row \<longrightarrow>
                  (\<exists>x. map_of (rev row) ''Date'' = Some (VDate x))"
  shows "generate_trace_md (DataFrame (map (merge_entry flights codes) (year_days 2024))) = Inl TypeError"
proof -
  let ?ds = "year_days 2024"
  let ?es = "map (merge_entry flights codes) ?ds"
  let ?rows = "iterrows (DataFrame ?es)"
  define P where "P i \<longleftrightarrow> i < 366 \<and> flights (?ds ! i) \<noteq> None" for i
  define j where "j = (LEAST i. P i)"
  from some obtain i0 where "i0 < 366" "flights (?ds ! i0) \<noteq> None"
    by (auto simp: in_set_conv_nth length_year_days_2024)
  then have "P i0" by (simp add: P_def)
  then have Pj: "P j" unfolding j_def by (rule LeastI)
  have least: "\<not> P i" if "i < j" for i
    using that unfolding j_def by (rule not_less_Least)
  from Pj have j: "j < 366" and fj: "flights (?ds ! j) \<noteq> None" by (simp_all add: P_def)
  from fj obtain row where row: "flights (?ds ! j) = Some row" by blast
  from j have mem: "?ds ! j \<in> set ?ds" by (simp add: length_year_days_2024)
  with dates row obtain x where x: "map_of (rev row) ''Date'' = Some (VDate x)" by blast
  from j have len: "j < length ?es" by (simp add: length_year_days_2024)
  from j have e: "?es ! j = merge_entry flights codes (?ds ! j)"
    by (simp add: length_year_days_2024)
  from row x have "map_of (merge_entry flights codes (?ds ! j)) ''Date'' = Some (VDate x)"
    by (simp add: merge_entry_flight)
  then have "map_of (?es ! j) ''Date'' = Some (VDate x)" by (simp only: e)
  from DataFrame_row_object [OF len this]
  have at: "map_of (?rows ! j) ''Date'' = Some (VDate x)" by (simp add: is_object_def)
  have lr: "length ?rows = 366"
    by (simp add: length_iterrows_DataFrame length_year_days_2024)
  have before: "\<forall>r\<in>set (take j ?rows). row_month r \<noteq> None"
  proof
    fix r assume "r \<in> set (take j ?rows)"
    then obtain i where i: "i < j" and r: "r = ?rows ! i"
      using j lr by (auto simp: in_set_conv_nth)
    from i j have i366: "i < 366" by simp
    from least [OF i] i366 have "flights (?ds ! i) = None" by (simp add: P_def)
    with i366 show "row_month r \<noteq> None"
      unfolding r by (rule timeline_row_free [where flights = flights and codes = codes])
  qed
  have "strptime_cell (VDate x) = Inl TypeError" by (simp add: strptime_cell_def)
  from group_months_error [OF before at this]
  have "group_months (take j ?rows @ ?rows ! j # drop (Suc j) ?rows) (\<lambda>m. []) = Inl TypeError" .
  moreover have "take j ?rows @ ?rows ! j # drop (Suc j) ?rows = ?rows"
    using j lr by (intro id_take_nth_drop [symmetric]) simp
  ultimately have "group_months ?rows (\<lambda>m. []) = Inl TypeError" by (simp only:)
  then show ?thesis by (simp add: generate_trace_md_def)
qed

section \<open>The records of the flights index\<close>

text \<open>A record that \<open>parse_csv\<close> stores for a date holds that date, as a date object, under
  \<open>Date\<close>: the column \<open>parse_csv\<close> itself sets.\<close>

lemma fold_index_flights:
  assumes "fold (\<lambda>row flights.
             case map_of row ''Date'' of
               None \<Rightarrow> flights
             | Some v \<Rightarrow>
                 (if notnull v then (case v of VDate d \<Rightarrow> flights(d \<mapsto> row) | _ \<Rightarrow> flights)
                  else flights)) rs acc d = Some row"
  shows "acc d = Some row \<or> (row \<in> set rs \<and> map_of row ''Date'' = Some (VDate d))"
  using assms
proof (induction rs arbitrary: acc)
  case Nil
  then show ?case by simp
next
  case (Cons r rs)
  let ?step = "\<lambda>row flights.
             case map_of row ''Date'' of
               None \<Rightarrow> flights
             | Some v \<Rightarrow>
                 (if notnull v then (case v of VDate d \<Rightarrow> flights(d \<mapsto> row) | _ \<Rightarrow> flights)
                  else flights)"
  from Cons.prems have "fold ?step rs (?step r acc) d = Some row" by simp
  from Cons.IH [OF this]
  consider "?step r acc d = Some row" | "row \<in> set rs" "map_of row ''Date'' = Some (VDate d)"
    by blast
  then show ?case
  proof cases
    case 1
    then have "acc d = Some row \<or> (r = row \<and> map_of r ''Date'' = Some (VDate d))"
      by (auto split: option.splits cell.splits if_splits)
    then show ?thesis by auto
  next
    case 2
    then show ?thesis by simp
  qed
qed

lemma set_column_one_value:
  assumes "r \<in> set (iterrows (set_column c vs df))" "(c, x) \<in> set r" "(c, y) \<in> set r"
  shows "x = y"
proof (cases "c \<in> set (columns df)")
  case True
  from assms(1) True obtain r0 v where
    r: "r = zip (columns df) (map (\<lambda>(k, x). if k = c then v else x) (zip (columns df) r0))"
    by (auto simp: iterrows_def set_column_def)
  have "z = v" if "(c, z) \<in> set r" for z
  proof -
    from that obtain i where i: "i < length (columns df)" "i < length r0"
      and k: "columns df ! i = c"
      and z: "map (\<lambda>(k, x). if k = c then v else x) (zip (columns df) r0) ! i = z"
      unfolding r by (auto simp: in_set_zip)
    from i k z show ?thesis by simp
  qed
  from this [OF assms(2)] this [OF assms(3)] show ?thesis by simp
next
  case False
  from assms(1) False obtain r0 v where r: "r = zip (columns df @ [c]) (r0 @ [v])"
    by (auto simp: iterrows_def set_column_def)
  have "z = (r0 @ [v]) ! length (columns df)" if "(c, z) \<in> set r" for z
  proof -
    from that obtain i where i: "i < length (columns df @ [c])"
      and k: "(columns df @ [c]) ! i = c" and z: "(r0 @ [v]) ! i = z"
      unfolding r by (auto simp: in_set_zip)
    have "i = length (columns df)"
    proof (rule ccontr)
      assume "i \<noteq> length (columns df)"
      with i have "i < length (columns df)" by simp
      with k have "c \<in> set (columns df)" by (auto simp: nth_append)
      with False show False ..
    qed
    with z show ?thesis by simp
  qed
  from this [OF assms(2)] this [OF assms(3)] show ?thesis by simp
qed

lemma map_of_rev_one_value:
  assumes "\<And>x y. (k, x) \<in> set r \<Longrightarrow> (k, y) \<in> set r \<Longrightarrow> x = y"
  shows "map_of (rev r) k = map_of r k"
proof (cases "map_of r k")
  case None
  then have "k \<notin> fst ` set r" by (simp add: map_of_eq_None_iff)
  with None show ?thesis by (simp add: map_of_rev_None)
next
  case (Some x)
  then have x: "(k, x) \<in> set r" by (rule map_of_SomeD)
  then have "k \<in> fst ` set r" by force
  then have "map_of (rev r) k \<noteq> None" by (simp add: map_of_rev_None)
  then obtain y where y: "map_of (rev r) k = Some y" by blast
  then have "(k, y) \<in> set r" using map_of_SomeD [OF y] by simp
  with assms x have "x = y" by blast
  with Some y show ?thesis by simp
qed

lemma parse_csv_Date:
  assumes "parse_csv to_datetime df = Inr flights" "flights d = Some row"
  shows "map_of (rev row) ''Date'' = Some (VDate d)"
proof -
  from assms(1) obtain date_col where
    f: "flights = index_flights (iterrows (set_column ''Date''
          (map (\<lambda>v. date_cell (to_datetime v)) (column_values date_col df)) df))"
    by (auto simp: parse_csv_def Let_def split: option.splits list.splits)
  let ?rs = "iterrows (set_column ''Date''
          (map (\<lambda>v. date_cell (to_datetime v)) (column_values date_col df)) df)"
  from assms(2) have "index_flights ?rs d = Some row" by (simp only: f)
  from fold_index_flights [OF this [unfolded index_flights_def]]
  have row: "row \<in> set ?rs" and dt: "map_of row ''Date'' = Some (VDate d)" by simp_all
  have "map_of (rev row) ''Date'' = map_of row ''Date''"
    by (rule map_of_rev_one_value) (rule set_column_one_value [OF row])
  with dt show ?thesis by simp
qed

section \<open>The claims\<close>

text \<open>
  Claim C1, as the code has it. \<open>build_consolidated\<close> takes no year: it walks
  \<open>date_range(2024)\<close>, so the timeline always has the 366 entries of 2024, the i-th
  built for the i-th date of that year. The dates themselves are right for every year:
  for a year from 1 to 9999, \<open>date_range\<close> yields 366 dates in a leap year and 365
  otherwise, exactly the valid dates of the year, strictly ascending and without
  repetition. An entry's \<open>Date\<close> is the ISO string of its date when the date has no
  flight record, or one without a field named \<open>Date\<close>; these strings are pairwise
  different.
\<close>

theorem C1_timeline:
  "(\<forall>y. 1 \<le> y \<and> y \<le> 9999 \<longrightarrow>
      (\<exists>ds. date_range y = Inr ds \<and>
            length ds = (if is_leap (nat y) then 366 else 365) \<and>
            set ds = {d. valid_date d \<and> int (year d) = y} \<and>
            sorted_wrt date_less ds \<and> distinct ds)) \<and>
   (\<exists>ds es. date_range 2024 = Inr ds \<and> consolidated flights codes = Inr es \<and>
        build_consolidated flights codes = Inr (DataFrame es) \<and>
        length es = 366 \<and> length (rows (DataFrame es)) = 366 \<and>
        es = map (merge_entry flights codes) ds \<and>
        distinct (map strftime_ymd ds) \<and>
        (\<forall>i<366. flights (ds ! i) = None \<or>
                   (\<exists>row. flights (ds ! i) = Some row \<and> ''Date'' \<notin> fst ` set row) \<longrightarrow>
                 map_of (es ! i) ''Date'' = Some (VStr (strftime_ymd (ds ! i)))))"
proof (intro conjI allI impI)
  fix y :: int assume "1 \<le> y \<and> y \<le> 9999"
  then have y: "1 \<le> y" "y \<le> 9999" by simp_all
  then have n: "1 \<le> nat y" "nat y \<le> 9999" by linarith+
  have set_eq: "{d. valid_date d \<and> int (year d) = y} = {d. valid_date d \<and> year d = nat y}"
    using y by auto
  show "\<exists>ds. date_range y = Inr ds \<and>
            length ds = (if is_leap (nat y) then 366 else 365) \<and>
            set ds = {d. valid_date d \<and> int (year d) = y} \<and>
            sorted_wrt date_less ds \<and> distinct ds"
    unfolding set_eq
    using date_range_year_days [OF y] set_year_days [OF n] sorted_year_days [OF n]
      distinct_year_days [OF n] length_year_days [of "nat y"]
    by (simp add: days_in_year_def)
next
  let ?ds = "year_days 2024"
  let ?es = "map (merge_entry flights codes) ?ds"
  have len: "length ?ds = 366" by (simp add: length_year_days days_in_year_def is_leap_def)
  have dr: "date_range 2024 = Inr ?ds" by (simp add: date_range_2024 year_days_2024)
  have co: "consolidated flights codes = Inr ?es" by (rule consolidated_year_days)
  have bc: "build_consolidated flights codes = Inr (DataFrame ?es)"
    by (simp add: build_consolidated_def co)
  have rows: "length (rows (DataFrame ?es)) = 366"
    by (simp add: DataFrame_def Let_def len)
  have dist: "distinct (map strftime_ymd ?ds)"
    by (rule distinct_strftime_year_days) simp_all
  have dates: "\<forall>i<366. flights (?ds ! i) = None \<or>
                   (\<exists>row. flights (?ds ! i) = Some row \<and> ''Date'' \<notin> fst ` set row) \<longrightarrow>
                 map_of (?es ! i) ''Date'' = Some (VStr (strftime_ymd (?ds ! i)))"
    using len by (simp add: merge_entry_Date)
  from dr co bc rows dist dates len
  show "\<exists>ds es. date_range 2024 = Inr ds \<and> consolidated flights codes = Inr es \<and>
        build_consolidated flights codes = Inr (DataFrame es) \<and>
        length es = 366 \<and> length (rows (DataFrame es)) = 366 \<and>
        es = map (merge_entry flights codes) ds \<and>
        distinct (map strftime_ymd ds) \<and>
        (\<forall>i<366. flights (ds ! i) = None \<or>
                   (\<exists>row. flights (ds ! i) = Some row \<and> ''Date'' \<notin> fst ` set row) \<longrightarrow>
                 map_of (es ! i) ''Date'' = Some (VStr (strftime_ymd (ds ! i))))"
    by (intro exI [of _ ?ds] exI [of _ ?es]) simp
qed

theorem C1_timeline_witness:
  "(\<exists>ds. date_range 2023 = Inr ds \<and> length ds = 365 \<and>
         set ds = {d. valid_date d \<and> int (year d) = 2023} \<and>
         sorted_wrt date_less ds \<and> distinct ds) \<and>
   (\<exists>es. consolidated [Date 2024 3 16 \<mapsto> [(''Flight'', VStr ''AZ100'')]] Map.empty = Inr es \<and>
         length es = 366 \<and> map_of (es ! 74) ''Date'' = Some (VStr ''2024-03-15''))"
proof -
  let ?F = "[Date 2024 3 16 \<mapsto> [(''Flight'', VStr ''AZ100'')]]"
  note C1 = C1_timeline [of ?F Map.empty]
  have "\<exists>ds. date_range 2023 = Inr ds \<and>
            length ds = (if is_leap (nat 2023) then 366 else 365) \<and>
            set ds = {d. valid_date d \<and> int (year d) = 2023} \<and>
            sorted_wrt date_less ds \<and> distinct ds"
    by (rule C1 [THEN conjunct1, rule_format]) simp
  then have A: "\<exists>ds. date_range 2023 = Inr ds \<and> length ds = 365 \<and>
      set ds = {d. valid_date d \<and> int (year d) = 2023} \<and> sorted_wrt date_less ds \<and> distinct ds"
    by (simp add: is_leap_def)
  from C1 [THEN conjunct2] obtain ds es where dr: "date_range 2024 = Inr ds"
    and co: "consolidated ?F Map.empty = Inr es" and len: "length es = 366"
    and dates: "\<forall>i<366. ?F (ds ! i) = None \<or>
                   (\<exists>row. ?F (ds ! i) = Some row \<and> ''Date'' \<notin> fst ` set row) \<longrightarrow>
                 map_of (es ! i) ''Date'' = Some (VStr (strftime_ymd (ds ! i)))"
    by blast
  from dr have "ds = year_days 2024" by (simp add: date_range_2024 year_days_2024)
  then have ds: "ds ! 74 = Date 2024 3 15" by (simp only: year_days_2024_74)
  have "?F (ds ! 74) = None" unfolding ds by simp
  with dates have "map_of (es ! 74) ''Date'' = Some (VStr (strftime_ymd (ds ! 74)))"
    by simp
  then have "map_of (es ! 74) ''Date'' = Some (VStr ''2024-03-15'')"
    unfolding ds strftime_2024_03_15 .
  with co len have B: "\<exists>es. consolidated ?F Map.empty = Inr es \<and>
         length es = 366 \<and> map_of (es ! 74) ''Date'' = Some (VStr ''2024-03-15'')"
    by blast
  from A B show ?thesis by (rule conjI)
qed

theorem C1_counterexample:
  "(\<exists>es. build_consolidated Map.empty Map.empty = Inr (DataFrame es) \<and>
         length es \<noteq> (if is_leap 2023 then 366 else 365) \<and>
         length (rows (DataFrame es)) \<noteq> (if is_leap 2023 then 366 else 365)) \<and>
   (\<exists>es. build_consolidated [Date 2024 3 16 \<mapsto> [(''Date'', VStr ''2024-03-15'')]] Map.empty =
           Inr (DataFrame es) \<and>
         map_of (es ! 74) ''Date'' = Some (VStr ''2024-03-15'') \<and>
         map_of (es ! 75) ''Date'' = Some (VStr ''2024-03-15''))"
proof (rule conjI)
  have "length (map (merge_entry Map.empty Map.empty) (year_days 2024)) = 366"
    by (simp add: length_year_days_2024)
  then show "\<exists>es. build_consolidated Map.empty Map.empty = Inr (DataFrame es) \<and>
         length es \<noteq> (if is_leap 2023 then 366 else 365) \<and>
         length (rows (DataFrame es)) \<noteq> (if is_leap 2023 then 366 else 365)"
    by (intro exI [of _ "map (merge_entry Map.empty Map.empty) (year_days 2024)"])
      (simp add: build_consolidated_def consolidated_year_days is_leap_def DataFrame_def Let_def)
next
  let ?F = "[Date 2024 3 16 \<mapsto> [(''Date'', VStr ''2024-03-15'')]]"
  let ?es = "map (merge_entry ?F Map.empty) (year_days 2024)"
  have "?es ! 74 = merge_entry ?F Map.empty (Date 2024 3 15)"
    by (simp add: length_year_days_2024 year_days_2024_74)
  also have "\<dots> = [(''Date'', VStr ''2024-03-15''), (''Type'', VStr ''OFF (auto)'')]"
    by (simp add: merge_entry_off strftime_2024_03_15)
  finally have e0: "map_of (?es ! 74) ''Date'' = Some (VStr ''2024-03-15'')"
    by simp
  have "?es ! 75 = merge_entry ?F Map.empty (Date 2024 3 16)"
    by (simp add: length_year_days_2024 year_days_2024_75)
  then have e1: "map_of (?es ! 75) ''Date'' = Some (VStr ''2024-03-15'')"
    by (simp add: merge_entry_flight)
  have "build_consolidated ?F Map.empty = Inr (DataFrame ?es)"
    by (simp add: build_consolidated_def consolidated_year_days)
  with e0 e1 show "\<exists>es. build_consolidated ?F Map.empty = Inr (DataFrame es) \<and>
         map_of (es ! 74) ''Date'' = Some (VStr ''2024-03-15'') \<and>
         map_of (es ! 75) ''Date'' = Some (VStr ''2024-03-15'')"
    by blast
qed

text \<open>
  Claim C2, as the code has it: for every day \<open>d\<close> of 2024 the entry of the day (at
  position \<open>yday d - 1\<close>) gets its \<open>Type\<close> by priority. With a flight record, every
  field of the record is in the entry with the record's value (the last one, should a
  label repeat), and \<open>Type\<close> is \<open>Volo\<close> when the record has no field named \<open>Type\<close>;
  else with a code, \<open>Type\<close> is that code; else it is \<open>OFF (auto)\<close>.
\<close>

theorem C2_type_priority:
  assumes "valid_date d" "year d = 2024"
  shows "\<exists>es. consolidated flights codes = Inr es \<and>
     build_consolidated flights codes = Inr (DataFrame es) \<and>
     (case flights d of
        Some row \<Rightarrow>
          (\<forall>k v. map_of (rev row) k = Some v \<longrightarrow> map_of (es ! (yday d - 1)) k = Some v) \<and>
          (''Type'' \<notin> fst ` set row \<longrightarrow> map_of (es ! (yday d - 1)) ''Type'' = Some (VStr ''Volo''))
      | None \<Rightarrow>
          (case codes d of
             Some code \<Rightarrow> map_of (es ! (yday d - 1)) ''Type'' = Some (VStr code)
           | None \<Rightarrow> map_of (es ! (yday d - 1)) ''Type'' = Some (VStr ''OFF (auto)'')))"
proof -
  from consolidated_day [OF assms] obtain es where co: "consolidated flights codes = Inr es"
    and e: "es ! (yday d - 1) = merge_entry flights codes d"
    by blast
  have "case flights d of
        Some row \<Rightarrow>
          (\<forall>k v. map_of (rev row) k = Some v \<longrightarrow> map_of (merge_entry flights codes d) k = Some v) \<and>
          (''Type'' \<notin> fst ` set row \<longrightarrow> map_of (merge_entry flights codes d) ''Type'' = Some (VStr ''Volo''))
      | None \<Rightarrow>
          (case codes d of
             Some code \<Rightarrow> map_of (merge_entry flights codes d) ''Type'' = Some (VStr code)
           | None \<Rightarrow> map_of (merge_entry flights codes d) ''Type'' = Some (VStr ''OFF (auto)''))"
  proof (cases "flights d")
    case None
    then show ?thesis by (cases "codes d") (simp_all add: merge_entry_code merge_entry_off)
  next
    case (Some row)
    have "map_of (rev row) ''Type'' = None" if "''Type'' \<notin> fst ` set row"
      using that by (simp add: map_of_rev_None)
    with Some show ?thesis by (simp add: merge_entry_flight)
  qed
  then have "case flights d of
        Some row \<Rightarrow>
          (\<forall>k v. map_of (rev row) k = Some v \<longrightarrow> map_of (es ! (yday d - 1)) k = Some v) \<and>
          (''Type'' \<notin> fst ` set row \<longrightarrow> map_of (es ! (yday d - 1)) ''Type'' = Some (VStr ''Volo''))
      | None \<Rightarrow>
          (case codes d of
             Some code \<Rightarrow> map_of (es ! (yday d - 1)) ''Type'' = Some (VStr code)
           | None \<Rightarrow> map_of (es ! (yday d - 1)) ''Type'' = Some (VStr ''OFF (auto)''))"
    by (simp only: e)
  with co build_consolidated_of [OF co] show ?thesis by blast
qed

theorem C2_type_priority_witness:
  "\<exists>es. consolidated [Date 2024 3 15 \<mapsto> [(''Flight'', VStr ''AZ100'')]] Map.empty = Inr es \<and>
        map_of (es ! 74) ''Flight'' = Some (VStr ''AZ100'') \<and>
        map_of (es ! 74) ''Type'' = Some (VStr ''Volo'')"
proof -
  let ?F = "[Date 2024 3 15 \<mapsto> [(''Flight'', VStr ''AZ100'')]]"
  have y: "year (Date 2024 3 15) = 2024" by simp
  from C2_type_priority [OF day_2024_03_15(1) y, of ?F Map.empty]
  obtain es where co: "consolidated ?F Map.empty = Inr es"
    and f: "\<forall>k v. map_of (rev [(''Flight'', VStr ''AZ100'')]) k = Some v \<longrightarrow> map_of (es ! 74) k = Some v"
    and t: "''Type'' \<notin> fst ` set [(''Flight'', VStr ''AZ100'')] \<longrightarrow>
              map_of (es ! 74) ''Type'' = Some (VStr ''Volo'')"
    unfolding day_2024_03_15(2) by auto
  from f have "map_of (es ! 74) ''Flight'' = Some (VStr ''AZ100'')" by simp
  moreover from t have "map_of (es ! 74) ''Type'' = Some (VStr ''Volo'')" by simp
  ultimately show ?thesis using co by blast
qed

theorem C2_counterexample:
  "\<exists>es. consolidated [Date 2024 3 15 \<mapsto> [(''Type'', VStr ''A320'')]] Map.empty = Inr es \<and>
        build_consolidated [Date 2024 3 15 \<mapsto> [(''Type'', VStr ''A320'')]] Map.empty =
          Inr (DataFrame es) \<and>
        [Date 2024 3 15 \<mapsto> [(''Type'', VStr ''A320'')]] (Date 2024 3 15) \<noteq> None \<and>
        map_of (es ! 74) ''Type'' = Some (VStr ''A320'') \<and>
        map_of (es ! 74) ''Type'' \<noteq> Some (VStr ''Volo'')"
proof -
  let ?F = "[Date 2024 3 15 \<mapsto> [(''Type'', VStr ''A320'')]]"
  let ?es = "map (merge_entry ?F Map.empty) (year_days 2024)"
  have "?es ! 74 = merge_entry ?F Map.empty (Date 2024 3 15)"
    by (simp add: length_year_days_2024 year_days_2024_74)
  then have "map_of (?es ! 74) ''Type'' = Some (VStr ''A320'')"
    by (simp add: merge_entry_flight)
  then show ?thesis
    unfolding build_consolidated_def consolidated_year_days by simp
qed

text \<open>
  Claim C3 fails on the code. \<open>parse_csv\<close> stores, in every row it indexes, the parsed date
  under \<open>Date\<close> (a \<open>datetime.date\<close>); the field copy of \<open>build_consolidated\<close> then puts it in
  place of the ISO string. For the report above the entry of 15 March 2024 is
  \<open>{Date: date(2024, 3, 15), Type: "Volo", Flight: "AZ100"}\<close>, not the entry of the claim, and
  the summary renderer, which parses \<open>Date\<close> as a string, raises a TypeError on the
  timeline.
\<close>

theorem C3_flight_entry_date:
  "\<exists>flights es.
      parse_csv dayfirst_15_03 report_csv = Inr flights \<and>
      consolidated flights Map.empty = Inr es \<and>
      es ! 74 = [(''Date'', VDate (Date 2024 3 15)), (''Type'', VStr ''Volo''), (''Flight'', VStr ''AZ100'')] \<and>
      es ! 74 \<noteq> [(''Date'', VStr ''2024-03-15''), (''Type'', VStr ''Volo''), (''Flight'', VStr ''AZ100'')] \<and>
      map_of (es ! 74) ''Date'' \<noteq> Some (VStr ''2024-03-15'') \<and>
      build_consolidated flights Map.empty = Inr (DataFrame es) \<and>
      generate_trace_md (DataFrame es) = Inl TypeError"
proof -
  let ?F = "[Date 2024 3 15 \<mapsto> [(''Date'', VDate (Date 2024 3 15)), (''Flight'', VStr ''AZ100'')]]"
  let ?es = "map (merge_entry ?F Map.empty) (year_days 2024)"
  have "?es ! 74 = merge_entry ?F Map.empty (Date 2024 3 15)"
    by (simp add: length_year_days_2024 year_days_2024_74)
  also have "\<dots> = [(''Date'', VDate (Date 2024 3 15)), (''Type'', VStr ''Volo''), (''Flight'', VStr ''AZ100'')]"
    by (simp add: merge_entry_def)
  finally have e: "?es ! 74 =
      [(''Date'', VDate (Date 2024 3 15)), (''Type'', VStr ''Volo''), (''Flight'', VStr ''AZ100'')]" .
  have b: "build_consolidated ?F Map.empty = Inr (DataFrame ?es)"
    by (simp add: build_consolidated_def consolidated_year_days)
  have g: "generate_trace_md (DataFrame ?es) = Inl TypeError"
  proof (rule renderer_raises)
    have "year_days 2024 ! 74 \<in> set (year_days 2024)"
      by (intro nth_mem) (simp add: length_year_days_2024)
    then have "Date 2024 3 15 \<in> set (year_days 2024)" by (simp only: year_days_2024_74)
    then show "\<exists>d\<in>set (year_days 2024). ?F d \<noteq> None" by (intro bexI [of _ "Date 2024 3 15"]) simp_all
    show "\<forall>d\<in>set (year_days 2024). \<forall>row. ?F d = Some row \<longrightarrow>
                  (\<exists>x. map_of (rev row) ''Date'' = Some (VDate x))"
      by (auto split: if_splits)
  qed
  show ?thesis
    unfolding parse_csv_report consolidated_year_days using e b g by simp
qed

text \<open>
  Claim C4: for a day of 2024 with a flight record that has a field \<open>Date\<close> or \<open>Type\<close>,
  the entry of the day holds the record's value under that name, not the string or label
  the merge assigned; the merge returns normally.
\<close>

theorem C4_field_copy_overwrites:
  assumes "valid_date d" "year d = 2024" "flights d = Some row"
    and "k = ''Date'' \<or> k = ''Type''" "map_of (rev row) k = Some v"
  shows "\<exists>es. consolidated flights codes = Inr es \<and>
              build_consolidated flights codes = Inr (DataFrame es) \<and> length es = 366 \<and>
              map_of (es ! (yday d - 1)) k = Some v"
proof -
  from consolidated_day [OF assms(1,2)] obtain es where co: "consolidated flights codes = Inr es"
    and len: "length es = 366" and e: "es ! (yday d - 1) = merge_entry flights codes d"
    by blast
  from assms(3,5) have "map_of (es ! (yday d - 1)) k = Some v"
    unfolding e by (simp add: merge_entry_flight)
  with co build_consolidated_of [OF co] len show ?thesis by blast
qed

theorem C4_field_copy_overwrites_witness:
  "\<exists>es. consolidated
          [Date 2024 3 15 \<mapsto> [(''Date'', VDate (Date 2024 3 15)), (''Type'', VStr ''A320'')]]
          Map.empty = Inr es \<and> length es = 366 \<and>
        map_of (es ! 74) ''Date'' = Some (VDate (Date 2024 3 15))"
proof -
  let ?row = "[(''Date'', VDate (Date 2024 3 15)), (''Type'', VStr ''A320'')]"
  have "\<exists>es. consolidated [Date 2024 3 15 \<mapsto> ?row] Map.empty = Inr es \<and>
      build_consolidated [Date 2024 3 15 \<mapsto> ?row] Map.empty = Inr (DataFrame es) \<and> length es = 366 \<and>
      map_of (es ! (yday (Date 2024 3 15) - 1)) ''Date'' = Some (VDate (Date 2024 3 15))"
    by (rule C4_field_copy_overwrites [OF day_2024_03_15(1), where row = ?row]) simp_all
  then show ?thesis unfolding day_2024_03_15(2) by blast
qed

text \<open>
  Claim C5 fails on the code in its first half. \<open>errors='coerce'\<close> turns a first cell that
  is no date into \<open>NaT\<close>, and the guard \<open>if dt and code\<close> is meant to drop it; but \<open>NaT\<close> is
  true, so a row whose first cell is no date and whose code is not blank is stored, under
  the key \<open>NaT\<close>. The rest of the claim holds: a row that is empty, or whose first cell is
  missing or empty or makes \<open>to_datetime\<close> raise, or whose second cell is missing, empty or
  blank once stripped, leaves \<open>code_by_date\<close> as it was; \<open>parse_pdfs\<close> is the fold of the row
  step over \<open>all_rows\<close>; and when a row stores a code under a key and no row after it stores
  one under the same key, the index holds that row's stripped code for the key, whatever
  earlier rows stored.
\<close>

theorem C5_unparsed_row_stored:
  "(s \<noteq> [] \<and> to_datetime s = Inr None \<and> strip c \<noteq> [] \<longrightarrow>
      parse_row to_datetime (Some s # Some c # rest) code_by_date = code_by_date(VNaT \<mapsto> strip c)) \<and>
   (row = [] \<or> hd row = None \<or> hd row = Some [] \<or>
    (\<exists>s e. hd row = Some s \<and> to_datetime s = Inl e) \<or>
    length row < 2 \<or> row ! 1 = None \<or> (\<exists>c. row ! 1 = Some c \<and> strip c = [])
      \<longrightarrow> parse_row to_datetime row code_by_date = code_by_date) \<and>
   (all_rows pdf_dir = rs1 @ r # rs2 \<and>
    r = Some s # Some c # rest \<and> s \<noteq> [] \<and> to_datetime s = Inr ts \<and> strip c \<noteq> [] \<and>
    (\<forall>r'\<in>set rs2. \<forall>c'. row_entry to_datetime r' \<noteq> Some (date_cell ts, c'))
      \<longrightarrow> parse_pdfs to_datetime pdf_dir = fold (parse_row to_datetime) (all_rows pdf_dir) Map.empty \<and>
          parse_pdfs to_datetime pdf_dir (date_cell ts) = Some (strip c))"
proof (intro conjI impI)
  assume h: "s \<noteq> [] \<and> to_datetime s = Inr None \<and> strip c \<noteq> []"
  then have "c \<noteq> []" by (auto simp: strip_def)
  with h show "parse_row to_datetime (Some s # Some c # rest) code_by_date =
      code_by_date(VNaT \<mapsto> strip c)"
    by (simp add: parse_row_def row_code_def date_cell_def truthy_def)
next
  assume skip: "row = [] \<or> hd row = None \<or> hd row = Some [] \<or>
    (\<exists>s e. hd row = Some s \<and> to_datetime s = Inl e) \<or>
    length row < 2 \<or> row ! 1 = None \<or> (\<exists>c. row ! 1 = Some c \<and> strip c = [])"
  have "row_entry to_datetime row = None"
  proof (cases row)
    case Nil
    then show ?thesis by (simp add: row_entry_def)
  next
    case (Cons a rest)
    show ?thesis
    proof (cases rest)
      case Nil
      with Cons show ?thesis
        by (simp add: row_entry_def row_code_def split: option.splits sum.splits)
    next
      case (Cons b rest')
      with \<open>row = a # rest\<close> skip show ?thesis
        by (auto simp: row_entry_def row_code_def split: option.splits sum.splits)
    qed
  qed
  then show "parse_row to_datetime row code_by_date = code_by_date"
    by (simp add: parse_row_entry)
next
  assume h: "all_rows pdf_dir = rs1 @ r # rs2 \<and>
    r = Some s # Some c # rest \<and> s \<noteq> [] \<and> to_datetime s = Inr ts \<and> strip c \<noteq> [] \<and>
    (\<forall>r'\<in>set rs2. \<forall>c'. row_entry to_datetime r' \<noteq> Some (date_cell ts, c'))"
  show "parse_pdfs to_datetime pdf_dir = fold (parse_row to_datetime) (all_rows pdf_dir) Map.empty"
    by (rule parse_pdfs_all_rows)
  from h have "strip c \<noteq> [] \<longrightarrow> c \<noteq> []" by (auto simp: strip_def)
  with h have e: "row_entry to_datetime r = Some (date_cell ts, strip c)"
    by (simp add: row_entry_def row_code_def truthy_date_cell)
  from h have later: "\<forall>r'\<in>set rs2. \<forall>c'. row_entry to_datetime r' \<noteq> Some (date_cell ts, c')"
    and split: "all_rows pdf_dir = rs1 @ r # rs2"
    by simp_all
  show "parse_pdfs to_datetime pdf_dir (date_cell ts) = Some (strip c)"
    unfolding parse_pdfs_all_rows split by (rule fold_parse_row_last [OF e later])
qed

theorem C5_unparsed_row_stored_witness:
  "parse_row dayfirst_10_06 [Some ''Data'', Some ''Codice''] Map.empty = [VNaT \<mapsto> ''Codice''] \<and>
   parse_row dayfirst_10_06 [Some ''Data'', Some ''Codice''] Map.empty \<noteq> Map.empty \<and>
   parse_row dayfirst_10_06 [Some ''10/06/2024'', Some ''  ''] Map.empty = Map.empty \<and>
   parse_pdfs dayfirst_10_06 duty_logs VNaT = Some ''Codice'' \<and>
   parse_pdfs dayfirst_10_06 duty_logs (VDate (Date 2024 6 10)) = Some ''FE'' \<and>
   day_codes (parse_pdfs dayfirst_10_06 duty_logs) (Date 2024 6 10) = Some ''FE''"
proof -
  note C5a = C5_unparsed_row_stored [of "''Data''" dayfirst_10_06 "''Codice''"
      "[]" Map.empty "[Some ''10/06/2024'', Some ''  '']"
      duty_logs "[[Some ''10/06/2024'', Some ''RI'']]"
      "[Some ''Data'', Some ''Codice'']" "[[Some ''10/06/2024'', Some '' FE '']]" None]
  note C5b = C5_unparsed_row_stored [of "''10/06/2024''" dayfirst_10_06 "'' FE ''"
      "[]" Map.empty "[]"
      duty_logs "[[Some ''10/06/2024'', Some ''RI''], [Some ''Data'', Some ''Codice'']]"
      "[Some ''10/06/2024'', Some '' FE '']" "[]" "Some (Date 2024 6 10)"]
  have strip_Codice: "strip ''Codice'' = ''Codice''" by code_simp
  have strip_blank: "strip ''  '' = []" by code_simp
  have a: "parse_row dayfirst_10_06 [Some ''Data'', Some ''Codice''] Map.empty =
      [VNaT \<mapsto> strip ''Codice'']"
    by (rule C5a [THEN conjunct1, THEN mp]) (simp add: dayfirst_10_06_def strip_Codice)
  have b: "parse_row dayfirst_10_06 [Some ''10/06/2024'', Some ''  ''] Map.empty = Map.empty"
    by (rule C5a [THEN conjunct2, THEN conjunct1, THEN mp]) (simp add: strip_blank)
  have c: "parse_pdfs dayfirst_10_06 duty_logs (date_cell None) = Some (strip ''Codice'')"
    by (rule C5a [THEN conjunct2, THEN conjunct2, THEN mp, THEN conjunct2])
      (simp add: all_rows_duty_logs dayfirst_10_06_def strip_Codice row_entry_def row_code_def
        date_cell_def truthy_def strip_FE)
  have d: "parse_pdfs dayfirst_10_06 duty_logs (date_cell (Some (Date 2024 6 10))) = Some (strip '' FE '')"
    by (rule C5b [THEN conjunct2, THEN conjunct2, THEN mp, THEN conjunct2])
      (simp add: all_rows_duty_logs dayfirst_10_06_def strip_FE)
  from a have a': "parse_row dayfirst_10_06 [Some ''Data'', Some ''Codice''] Map.empty =
      [VNaT \<mapsto> ''Codice'']"
    by (simp only: strip_Codice)
  have ne: "[VNaT \<mapsto> ''Codice''] \<noteq> (Map.empty :: cell \<rightharpoonup> string)" by simp
  from c have c': "parse_pdfs dayfirst_10_06 duty_logs VNaT = Some ''Codice''"
    by (simp add: date_cell_def strip_Codice)
  from d have d': "parse_pdfs dayfirst_10_06 duty_logs (VDate (Date 2024 6 10)) = Some ''FE''"
    by (simp add: date_cell_def strip_FE)
  from a' ne b c' d' show ?thesis by (simp add: day_codes_def)
qed

text \<open>
  Claim C6: after a timeline of \<open>L\<close> rows is written into a sheet, the cell at row \<open>r\<close> and
  column \<open>c\<close> holds the timeline's value when \<open>r\<close> is one of the rows 2 to \<open>L + 1\<close> and \<open>c\<close>
  is a column of the timeline's row within the header's length, and its previous value
  otherwise: row 1, the rows after \<open>L + 1\<close> and the columns past the header keep their
  values. Every workbook of the directory whose name ends in \<open>.xlsx\<close> is written so.
\<close>

theorem C6_overwrite_frame:
  "cell_value (overwrite_sheet df ws) r c =
     (if 2 \<le> r \<and> r \<le> length (rows df) + 1 \<and> 1 \<le> c \<and> c \<le> length (fst (header_row ws)) \<and>
         c \<le> length (rows df ! (r - 2))
      then rows df ! (r - 2) ! (c - 1) else cell_value ws r c) \<and>
   (r < 2 \<or> length (rows df) + 1 < r \<or> length (fst (header_row ws)) < c \<longrightarrow>
      cell_value (overwrite_sheet df ws) r c = cell_value ws r c) \<and>
   (distinct (map fst out_dir) \<and> map_of out_dir fname = Some (Workbook ws) \<and>
    endswith (lower fname) ''.xlsx'' \<and>
    (\<forall>n\<in>set (map fst out_dir). endswith (lower n) ''.xlsx'' \<longrightarrow> map_of out_dir n \<noteq> Some Other) \<longrightarrow>
      (\<exists>dir'. overwrite_excel_files df out_dir = (dir', None) \<and>
             map_of dir' fname = Some (Workbook (overwrite_sheet df ws))))"
proof (intro conjI impI)
  have h: "length (fst (header_row ws)) = max_column ws" by (simp add: header_row_def)
  show v: "cell_value (overwrite_sheet df ws) r c =
     (if 2 \<le> r \<and> r \<le> length (rows df) + 1 \<and> 1 \<le> c \<and> c \<le> length (fst (header_row ws)) \<and>
         c \<le> length (rows df ! (r - 2))
      then rows df ! (r - 2) ! (c - 1) else cell_value ws r c)"
    unfolding h cell_value_overwrite_sheet by auto
  assume "r < 2 \<or> length (rows df) + 1 < r \<or> length (fst (header_row ws)) < c"
  then show "cell_value (overwrite_sheet df ws) r c = cell_value ws r c"
    unfolding v by auto
next
  assume a: "distinct (map fst out_dir) \<and> map_of out_dir fname = Some (Workbook ws) \<and>
    endswith (lower fname) ''.xlsx'' \<and>
    (\<forall>n\<in>set (map fst out_dir). endswith (lower n) ''.xlsx'' \<longrightarrow> map_of out_dir n \<noteq> Some Other)"
  let ?ns = "filter (\<lambda>f. endswith (lower f) ''.xlsx'') (map fst out_dir)"
  from a have d: "distinct ?ns" by simp
  have wb: "\<forall>n\<in>set ?ns. \<exists>ws. map_of out_dir n = Some (Workbook ws)"
  proof
    fix n assume n: "n \<in> set ?ns"
    then have "n \<in> fst ` set out_dir" by auto
    then obtain f where f: "map_of out_dir n = Some f"
      by (cases "map_of out_dir n") (auto simp: map_of_eq_None_iff)
    with a n have "f \<noteq> Other" by auto
    with f show "\<exists>ws. map_of out_dir n = Some (Workbook ws)" by (cases f) simp_all
  qed
  from a have "fname \<in> fst ` set out_dir" by (metis domI dom_map_of_conv_image_fst)
  with a have mem: "fname \<in> set ?ns" by simp
  from overwrite_files_ok [OF d wb, of df] obtain dir' where
    r: "overwrite_files df ?ns out_dir = (dir', None)"
    and m: "\<forall>n. map_of dir' n =
        (if n \<in> set ?ns then map_option (overwritten df) (map_of out_dir n) else map_of out_dir n)"
    by blast
  from m [rule_format, of fname] mem a
  have "map_of dir' fname = Some (Workbook (overwrite_sheet df ws))"
    by (simp add: overwritten_def)
  with r show "\<exists>dir'. overwrite_excel_files df out_dir = (dir', None) \<and>
             map_of dir' fname = Some (Workbook (overwrite_sheet df ws))"
    unfolding overwrite_excel_files_def by blast
qed

theorem C6_overwrite_frame_witness:
  "cell_value (overwrite_sheet two_days template_sheet) 3 2 = VStr ''Volo'' \<and>
   cell_value (overwrite_sheet two_days template_sheet) 1 2 = VStr ''Type'' \<and>
   cell_value (overwrite_sheet two_days template_sheet) 5 2 = VStr ''total'' \<and>
   cell_value (overwrite_sheet two_days template_sheet) 3 3 = VNone \<and>
   (\<exists>dir'. overwrite_excel_files two_days
             [(''GENNAIO 2024.XLSX'', Workbook template_sheet), (''notes.txt'', Other)] = (dir', None) \<and>
          map_of dir' ''GENNAIO 2024.XLSX'' = Some (Workbook (overwrite_sheet two_days template_sheet)))"
proof -
  let ?dir = "[(''GENNAIO 2024.XLSX'', Workbook template_sheet), (''notes.txt'', Other)]"
  note C6 = C6_overwrite_frame [of two_days template_sheet _ _ ?dir "''GENNAIO 2024.XLSX''"]
  have a: "cell_value (overwrite_sheet two_days template_sheet) 3 2 = VStr ''Volo''"
    using C6 [of 3 2, THEN conjunct1] by (simp add: header_template_sheet two_days_def)
  have "cell_value (overwrite_sheet two_days template_sheet) 1 2 = cell_value template_sheet 1 2"
    using C6 [of 1 2, THEN conjunct2, THEN conjunct1] by simp
  then have b: "cell_value (overwrite_sheet two_days template_sheet) 1 2 = VStr ''Type''"
    by (simp add: cell_value_def template_sheet_def)
  have "cell_value (overwrite_sheet two_days template_sheet) 5 2 = cell_value template_sheet 5 2"
    using C6 [of 5 2, THEN conjunct2, THEN conjunct1] by (simp add: two_days_def)
  then have c: "cell_value (overwrite_sheet two_days template_sheet) 5 2 = VStr ''total''"
    by (simp add: cell_value_def template_sheet_def)
  have "cell_value (overwrite_sheet two_days template_sheet) 3 3 = cell_value template_sheet 3 3"
    using C6 [of 3 3, THEN conjunct2, THEN conjunct1] by (simp add: header_template_sheet)
  then have d: "cell_value (overwrite_sheet two_days template_sheet) 3 3 = VNone"
    by (simp add: cell_value_def template_sheet_def)
  have low: "lower ''GENNAIO 2024.XLSX'' = ''gennaio 2024.xlsx''" "lower ''notes.txt'' = ''notes.txt''"
    by code_simp+
  have e: "\<exists>dir'. overwrite_excel_files two_days ?dir = (dir', None) \<and>
          map_of dir' ''GENNAIO 2024.XLSX'' = Some (Workbook (overwrite_sheet two_days template_sheet))"
    by (rule C6 [of 1 1, THEN conjunct2, THEN conjunct2, THEN mp])
      (simp add: low endswith_def)
  from a b c d e show ?thesis by blast
qed

text \<open>
  Claim C7: with a start row and a start column of at least 1, writing a table of \<open>R\<close> rows
  returns normally. First the clearing loop leaves \<open>None\<close> in every cell of the rows
  \<open>start_row\<close> to \<open>start_row + max(50, R + 10) - 1\<close> and the columns 1 to \<open>max_column\<close>, and
  changes no other cell. In the sheet that is saved, the cell at \<open>(start_row + i,
  start_col + j)\<close> holds the value of row \<open>i\<close> and column \<open>j\<close> of the table, every other cell
  of the cleared region is empty, and every cell outside both keeps the template's value.
\<close>

theorem C7_clear_then_write:
  assumes "1 \<le> start_row" "1 \<le> start_col"
  shows "\<exists>ws1 ws'.
     for_each clear_row [start_row ..< start_row + max 50 (length (rows df) + 10)] ws = Inr ws1 \<and>
     (\<forall>r c. cell_value ws1 r c =
        (if start_row \<le> r \<and> r < start_row + max 50 (length (rows df) + 10) \<and>
            1 \<le> c \<and> c \<le> max_column ws
         then VNone else cell_value ws r c)) \<and>
     write_df_into_workbook ws df start_row start_col = Inr ws' \<and>
     (\<forall>r c. cell_value ws' r c =
        (if start_row \<le> r \<and> r < start_row + length (rows df) \<and>
            start_col \<le> c \<and> c < start_col + length (rows df ! (r - start_row))
         then rows df ! (r - start_row) ! (c - start_col)
         else if start_row \<le> r \<and> r < start_row + max 50 (length (rows df) + 10) \<and>
                 1 \<le> c \<and> c \<le> max_column ws
         then VNone
         else cell_value ws r c))"
proof -
  let ?k = "max 50 (length (rows df) + 10)"
  let ?rs = "rows df"
  have "\<forall>r\<in>set [start_row ..< start_row + ?k]. 1 \<le> r" using assms(1) by auto
  from clear_rows_ok [OF this, of ws] obtain ws1 where
    s1: "for_each clear_row [start_row ..< start_row + ?k] ws = Inr ws1"
    and v1: "\<And>r c. cell_value ws1 r c =
        (if start_row \<le> r \<and> r < start_row + ?k \<and> 1 \<le> c \<and> c \<le> max_column ws
         then VNone else cell_value ws r c)"
    by auto
  from write_df_rows_ok [OF assms, of 0 ?rs ws1] obtain ws' where
    s2: "for_each (write_df_row start_row start_col) (enumerate 0 ?rs) ws1 = Inr ws'"
    and v2: "\<And>r c. cell_value ws' r c =
        (if start_row + 0 \<le> r \<and> r < start_row + 0 + length ?rs \<and> start_col \<le> c \<and>
            c < start_col + length (?rs ! (r - (start_row + 0))) \<and>
            ?rs ! (r - (start_row + 0)) ! (c - start_col) \<noteq> VNone
         then ?rs ! (r - (start_row + 0)) ! (c - start_col) else cell_value ws1 r c)"
    by blast
  have s: "write_df_into_workbook ws df start_row start_col = Inr ws'"
    by (simp add: write_df_into_workbook_def Let_def s1 s2)
  have v: "cell_value ws' r c =
        (if start_row \<le> r \<and> r < start_row + length ?rs \<and>
            start_col \<le> c \<and> c < start_col + length (?rs ! (r - start_row))
         then ?rs ! (r - start_row) ! (c - start_col)
         else if start_row \<le> r \<and> r < start_row + ?k \<and> 1 \<le> c \<and> c \<le> max_column ws
         then VNone
         else cell_value ws r c)" for r c
  proof (cases "start_row \<le> r \<and> r < start_row + length ?rs \<and>
            start_col \<le> c \<and> c < start_col + length (?rs ! (r - start_row))")
    case False
    then show ?thesis using v2 [of r c] v1 [of r c] by auto
  next
    case written: True
    show ?thesis
    proof (cases "?rs ! (r - start_row) ! (c - start_col) = VNone")
      case False
      with written show ?thesis using v2 [of r c] by simp
    next
      case True
      from written have r: "start_row \<le> r" "r < start_row + ?k" and c: "1 \<le> c"
        using assms(2) by auto
      have "cell_value ws1 r c = VNone"
      proof (cases "c \<le> max_column ws")
        case True
        with r c show ?thesis by (simp add: v1)
      next
        case False
        then have "cell_value ws r c = VNone" by (intro cell_value_beyond) simp
        with False show ?thesis by (simp add: v1)
      qed
      with written True show ?thesis using v2 [of r c] by simp
    qed
  qed
  from s1 v1 s v show ?thesis by blast
qed

theorem C7_clear_then_write_witness:
  "\<exists>ws'. write_df_into_workbook march_template march_table 4 1 = Inr ws' \<and>
         cell_value ws' 4 2 = VStr ''FE'' \<and> cell_value ws' 4 3 = VStr ''note'' \<and>
         cell_value ws' 5 1 = VNone \<and> cell_value ws' 3 2 = VStr ''Codice'' \<and>
         cell_value ws' 60 2 = VStr ''fine''"
proof -
  have "(1::nat) \<le> 4" "(1::nat) \<le> 1" by simp_all
  from C7_clear_then_write [OF this, of march_table march_template] obtain ws' where
    s: "write_df_into_workbook march_template march_table 4 1 = Inr ws'"
    and v: "\<And>r c. cell_value ws' r c =
        (if 4 \<le> r \<and> r < 4 + length (rows march_table) \<and>
            1 \<le> c \<and> c < 1 + length (rows march_table ! (r - 4))
         then rows march_table ! (r - 4) ! (c - 1)
         else if 4 \<le> r \<and> r < 4 + max 50 (length (rows march_table) + 10) \<and>
                 1 \<le> c \<and> c \<le> max_column march_template
         then VNone
         else cell_value march_template r c)"
    by blast
  have m: "max_column march_template = 2" by (simp add: max_column_def march_template_def)
  have "cell_value ws' 4 2 = VStr ''FE''" by (simp add: v march_table_def)
  moreover have "cell_value ws' 4 3 = VStr ''note''" by (simp add: v march_table_def)
  moreover have "cell_value ws' 5 1 = VNone" by (simp add: v march_table_def m)
  moreover have "cell_value ws' 3 2 = cell_value march_template 3 2" by (simp add: v)
  then have "cell_value ws' 3 2 = VStr ''Codice''"
    by (simp add: cell_value_def march_template_def)
  moreover have "cell_value ws' 60 2 = cell_value march_template 60 2"
    by (simp add: v march_table_def m)
  then have "cell_value ws' 60 2 = VStr ''fine''"
    by (simp add: cell_value_def march_template_def)
  ultimately show ?thesis using s by blast
qed

text \<open>
  Claim C8: let the sorted list of documents be \<open>ps @ p # qs\<close>, with neither the template
  of \<open>p\<close>'s month nor the generic template in the template directory. After the documents
  \<open>ps\<close>, the call for \<open>p\<close> raises FileNotFoundError and leaves the files as they were (no
  output file, nothing printed); the loop prints the error for \<open>p\<close> and goes on with \<open>qs\<close>;
  the run ends by printing the number of calls that returned, and \<open>p\<close> is not one of them.
\<close>

theorem C8_missing_template:
  assumes "pdf_files st = ps @ p # qs"
    and "template_dir st (month_key_of p @ '' 2023.xlsx'') = None"
    and "template_dir st ''2023.xlsx'' = None"
  shows "\<exists>created1 st1 created st'.
      main_loop ex ps ([], st) = (created1, st1) \<and>
      process_month_pdf ex p st1 = (Inl (FileNotFoundError (month_key_of p)), st1) \<and>
      main_loop ex (ps @ p # qs) ([], st) =
        main_loop ex qs
          (created1, st1\<lparr>stdout := stdout st1 @ [ErrorProcessing p (FileNotFoundError (month_key_of p))]\<rparr>) \<and>
      main_loop ex (ps @ p # qs) ([], st) = (created, st') \<and>
      main ex st = st'\<lparr>stdout := stdout st' @ [Done (length created)]\<rparr> \<and>
      created = List.map_filter (item_output ex (template_dir st)) (ps @ p # qs) \<and>
      item_output ex (template_dir st) p = None"
proof -
  obtain created1 st1 where l1: "main_loop ex ps ([], st) = (created1, st1)"
    by (cases "main_loop ex ps ([], st)")
  from main_loop_template_dir [of ex ps "[]" st] l1 have t1: "template_dir st1 = template_dir st"
    by simp
  have miss: "process_month_pdf ex p st' = (Inl (FileNotFoundError (month_key_of p)), st')"
    if "template_dir st' = template_dir st" for st'
    using assms(2,3) that by (intro process_month_pdf_missing) simp_all
  note p1 = miss [OF t1]
  have step: "main_loop ex (ps @ p # qs) ([], st) =
      main_loop ex qs
        (created1, st1\<lparr>stdout := stdout st1 @ [ErrorProcessing p (FileNotFoundError (month_key_of p))]\<rparr>)"
    by (simp add: main_loop_append l1 p1)
  obtain created st' where l: "main_loop ex (ps @ p # qs) ([], st) = (created, st')"
    by (cases "main_loop ex (ps @ p # qs) ([], st)")
  have m: "main ex st = st'\<lparr>stdout := stdout st' @ [Done (length created)]\<rparr>"
    by (simp add: main_def assms(1) l)
  from main_loop_created [of ex "ps @ p # qs" "[]" st] l
  have c: "created = List.map_filter (item_output ex (template_dir st)) (ps @ p # qs)"
    by simp
  from process_month_pdf_item [of ex p st] miss [of st]
  have "item_result ex (template_dir st) p = Inl (FileNotFoundError (month_key_of p))"
    by simp
  then have n: "item_output ex (template_dir st) p = None" by (simp add: item_output_def)
  from l1 p1 step l m c n show ?thesis by blast
qed

theorem C8_missing_template_witness:
  "stdout (main no_tables example_files) =
     [ErrorProcessing ''EXTRA_2024.pdf'' (FileNotFoundError ''EXTRA''),
      Copied ''MARZO 2023.xlsx'' ''MARZO 2024.xlsx'', NoTables ''MARZO_2024.pdf'', Done 1] \<and>
   output_dir (main no_tables example_files) ''EXTRA 2024.xlsx'' = None \<and>
   output_dir (main no_tables example_files) ''MARZO 2024.xlsx'' = Some march_template"
proof -
  have files: "pdf_files example_files = [] @ ''EXTRA_2024.pdf'' # [''MARZO_2024.pdf'']"
    by (simp add: pdf_files_example)
  have t1: "template_dir example_files (month_key_of ''EXTRA_2024.pdf'' @ '' 2023.xlsx'') = None"
    by (simp add: month_keys example_files_def)
  have t2: "template_dir example_files ''2023.xlsx'' = None"
    by (simp add: example_files_def)
  from C8_missing_template [OF files t1 t2, of no_tables]
  obtain created1 st1 created st' where
    l1: "main_loop no_tables [] ([], example_files) = (created1, st1)"
    and step: "main_loop no_tables ([] @ ''EXTRA_2024.pdf'' # [''MARZO_2024.pdf'']) ([], example_files) =
        main_loop no_tables [''MARZO_2024.pdf'']
          (created1, st1\<lparr>stdout := stdout st1 @
             [ErrorProcessing ''EXTRA_2024.pdf'' (FileNotFoundError (month_key_of ''EXTRA_2024.pdf''))]\<rparr>)"
    and l: "main_loop no_tables ([] @ ''EXTRA_2024.pdf'' # [''MARZO_2024.pdf'']) ([], example_files) = (created, st')"
    and m: "main no_tables example_files = st'\<lparr>stdout := stdout st' @ [Done (length created)]\<rparr>"
    by blast
  from l1 have c1: "created1 = []" and s1: "st1 = example_files" by simp_all
  let ?st = "example_files\<lparr>stdout := stdout example_files @
             [ErrorProcessing ''EXTRA_2024.pdf'' (FileNotFoundError ''EXTRA'')]\<rparr>"
  have "template_dir ?st = [''MARZO 2023.xlsx'' \<mapsto> march_template]"
    by (simp add: example_files_def)
  note pm = process_marzo [OF this]
  from step l have "(created, st') = main_loop no_tables [''MARZO_2024.pdf''] ([], ?st)"
    by (simp add: c1 s1 month_keys)
  also have "\<dots> = ([''MARZO 2024.xlsx''],
      ?st\<lparr>output_dir := (output_dir ?st)(''MARZO 2024.xlsx'' \<mapsto> march_template),
          stdout := stdout ?st @ [Copied ''MARZO 2023.xlsx'' ''MARZO 2024.xlsx'', NoTables ''MARZO_2024.pdf'']\<rparr>)"
    by (simp add: pm)
  finally have c: "created = [''MARZO 2024.xlsx'']"
    and s: "st' = ?st\<lparr>output_dir := (output_dir ?st)(''MARZO 2024.xlsx'' \<mapsto> march_template),
          stdout := stdout ?st @ [Copied ''MARZO 2023.xlsx'' ''MARZO 2024.xlsx'', NoTables ''MARZO_2024.pdf'']\<rparr>"
    by simp_all
  show ?thesis unfolding m c s by (simp add: example_files_def)
qed

text \<open>
  Claim C9 fails on the code, by the defect of claim C3. Every record that \<open>parse_csv\<close>
  stores holds a date object under \<open>Date\<close>, and the field copy of \<open>build_consolidated\<close>
  puts it in place of the ISO string. So whenever the flights index that \<open>parse_csv\<close>
  returns has a record for a day of 2024, whatever the codes, the entry of that day has a
  date object as its \<open>Date\<close> and the summary renderer raises a TypeError in its first
  loop, before it opens the file: no tally is written for any month.
\<close>

theorem C9_renderer_raises:
  assumes "parse_csv to_datetime df = Inr flights"
    and "valid_date d" "year d = 2024" "flights d = Some row"
  shows "\<exists>es. consolidated flights codes = Inr es \<and>
              build_consolidated flights codes = Inr (DataFrame es) \<and>
              map_of (es ! (yday d - 1)) ''Date'' = Some (VDate d) \<and>
              generate_trace_md (DataFrame es) = Inl TypeError"
proof -
  let ?es = "map (merge_entry flights codes) (year_days 2024)"
  have y: "(1::nat) \<le> 2024" "(2024::nat) \<le> 9999" by simp_all
  have co: "consolidated flights codes = Inr ?es" by (rule consolidated_year_days)
  have bc: "build_consolidated flights codes = Inr (DataFrame ?es)"
    by (simp add: build_consolidated_def co)
  from year_days_2024_nth [OF assms(2,3)]
  have "?es ! (yday d - 1) = merge_entry flights codes d"
    by (simp add: length_year_days_2024)
  with assms(4) parse_csv_Date [OF assms(1,4)]
  have dt: "map_of (?es ! (yday d - 1)) ''Date'' = Some (VDate d)"
    by (simp add: merge_entry_flight)
  from assms(2,3) have "d \<in> set (year_days 2024)" unfolding set_year_days [OF y] by simp
  with assms(4) have some: "\<exists>d\<in>set (year_days 2024). flights d \<noteq> None" by auto
  have "\<forall>d\<in>set (year_days 2024). \<forall>row. flights d = Some row \<longrightarrow>
          (\<exists>x. map_of (rev row) ''Date'' = Some (VDate x))"
    using parse_csv_Date [OF assms(1)] by blast
  from renderer_raises [OF some this]
  have "generate_trace_md (DataFrame ?es) = Inl TypeError" .
  with co bc dt show ?thesis by blast
qed

theorem C9_renderer_raises_witness:
  "\<exists>flights es. parse_csv dayfirst_15_03 report_csv = Inr flights \<and>
      build_consolidated flights (day_codes (parse_pdfs dayfirst_10_06 duty_logs)) =
        Inr (DataFrame es) \<and>
      map_of (es ! 74) ''Date'' = Some (VDate (Date 2024 3 15)) \<and>
      generate_trace_md (DataFrame es) = Inl TypeError"
proof -
  let ?F = "[Date 2024 3 15 \<mapsto> [(''Date'', VDate (Date 2024 3 15)), (''Flight'', VStr ''AZ100'')]]"
  have y: "year (Date 2024 3 15) = 2024" by simp
  have "?F (Date 2024 3 15) = Some [(''Date'', VDate (Date 2024 3 15)), (''Flight'', VStr ''AZ100'')]"
    by simp
  from C9_renderer_raises [OF parse_csv_report day_2024_03_15(1) y this,
      of "day_codes (parse_pdfs dayfirst_10_06 duty_logs)"]
  show ?thesis unfolding day_2024_03_15(2) using parse_csv_report by blast
qed

text \<open>
  Claim C10: the documents of a run are the names of the data directory that match
  \<open>*_2024.pdf\<close>, sorted as strings; \<open>PDF_MONTHS\<close> plays no part. What the run prints is what
  the calls for these documents print, one after the other in that order, then the count;
  a month with no document leaves no trace. For the twelve monthly names the order is the
  alphabetical one, from AGOSTO to SETTEMBRE.
\<close>

theorem C10_sorted_glob:
  "pdf_files st = sort (filter glob_2024_pdf (data_dir st)) \<and>
   sorted (pdf_files st) \<and>
   set (pdf_files st) = {f \<in> set (data_dir st). endswith f ''_2024.pdf'' \<and> take 1 f \<noteq> ''.''} \<and>
   (pdf_files st \<noteq> [] \<longrightarrow>
      stdout (main ex st) =
        stdout st @
        concat (map (\<lambda>p. item_messages ex (template_dir st) p @
                          (case item_result ex (template_dir st) p of
                             Inl e \<Rightarrow> [ErrorProcessing p e] | Inr out \<Rightarrow> [])) (pdf_files st)) @
        [Done (length (List.map_filter (item_output ex (template_dir st)) (pdf_files st)))]) \<and>
   (pdf_files st = [] \<longrightarrow> main ex st = st\<lparr>stdout := stdout st @ [NoPdfsFound]\<rparr>) \<and>
   pdf_files (st\<lparr>data_dir := PDF_MONTHS\<rparr>) =
     [''AGOSTO_2024.pdf'', ''APRILE_2024.pdf'', ''DICEMBRE_2024.pdf'', ''FEBBRAIO_2024.pdf'',
      ''GENNAIO_2024.pdf'', ''GIUGNO_2024.pdf'', ''LUGLIO_2024.pdf'', ''MAGGIO_2024.pdf'',
      ''MARZO_2024.pdf'', ''NOVEMBRE_2024.pdf'', ''OTTOBRE_2024.pdf'', ''SETTEMBRE_2024.pdf'']"
proof (intro conjI impI)
  show "pdf_files st = sort (filter glob_2024_pdf (data_dir st))" by (simp add: pdf_files_def)
  show "sorted (pdf_files st)" by (simp add: pdf_files_def)
  have "glob_2024_pdf f \<longleftrightarrow> endswith f ''_2024.pdf'' \<and> take 1 f \<noteq> ''.''" for f
    by (cases f) (simp_all add: glob_2024_pdf_def)
  then show "set (pdf_files st) = {f \<in> set (data_dir st). endswith f ''_2024.pdf'' \<and> take 1 f \<noteq> ''.''}"
    by (auto simp: pdf_files_def)
  show "pdf_files (st\<lparr>data_dir := PDF_MONTHS\<rparr>) =
     [''AGOSTO_2024.pdf'', ''APRILE_2024.pdf'', ''DICEMBRE_2024.pdf'', ''FEBBRAIO_2024.pdf'',
      ''GENNAIO_2024.pdf'', ''GIUGNO_2024.pdf'', ''LUGLIO_2024.pdf'', ''MAGGIO_2024.pdf'',
      ''MARZO_2024.pdf'', ''NOVEMBRE_2024.pdf'', ''OTTOBRE_2024.pdf'', ''SETTEMBRE_2024.pdf'']"
    by (simp add: pdf_files_def sort_months)
next
  assume "pdf_files st = []"
  then show "main ex st = st\<lparr>stdout := stdout st @ [NoPdfsFound]\<rparr>" by (simp add: main_def)
next
  assume ne: "pdf_files st \<noteq> []"
  obtain created st' where l: "main_loop ex (pdf_files st) ([], st) = (created, st')"
    by (cases "main_loop ex (pdf_files st) ([], st)")
  from main_loop_created [of ex "pdf_files st" "[]" st] l
  have c: "created = List.map_filter (item_output ex (template_dir st)) (pdf_files st)" by simp
  from main_loop_stdout [of ex "pdf_files st" "[]" st] l
  have s: "stdout st' = stdout st @
        concat (map (\<lambda>p. item_messages ex (template_dir st) p @
                          (case item_result ex (template_dir st) p of
                             Inl e \<Rightarrow> [ErrorProcessing p e] | Inr out \<Rightarrow> [])) (pdf_files st))"
    by simp
  from ne have "main ex st = st'\<lparr>stdout := stdout st' @ [Done (length created)]\<rparr>"
    by (simp add: main_def l)
  then show "stdout (main ex st) =
        stdout st @
        concat (map (\<lambda>p. item_messages ex (template_dir st) p @
                          (case item_result ex (template_dir st) p of
                             Inl e \<Rightarrow> [ErrorProcessing p e] | Inr out \<Rightarrow> [])) (pdf_files st)) @
        [Done (length (List.map_filter (item_output ex (template_dir st)) (pdf_files st)))]"
    by (simp add: s c)
qed

theorem C10_sorted_glob_witness:
  "pdf_files example_files = [''EXTRA_2024.pdf'', ''MARZO_2024.pdf''] \<and>
   stdout (main no_tables example_files) =
     [ErrorProcessing ''EXTRA_2024.pdf'' (FileNotFoundError ''EXTRA''),
      Copied ''MARZO 2023.xlsx'' ''MARZO 2024.xlsx'', NoTables ''MARZO_2024.pdf'', Done 1]"
proof -
  note C10 = C10_sorted_glob [of example_files no_tables]
  have ne: "pdf_files example_files \<noteq> []" by (simp add: pdf_files_example)
  have t: "template_dir example_files = [''MARZO 2023.xlsx'' \<mapsto> march_template]"
    by (simp add: example_files_def)
  from C10 ne have "stdout (main no_tables example_files) =
        stdout example_files @
        concat (map (\<lambda>p. item_messages no_tables (template_dir example_files) p @
                          (case item_result no_tables (template_dir example_files) p of
                             Inl e \<Rightarrow> [ErrorProcessing p e] | Inr out \<Rightarrow> [])) (pdf_files example_files)) @
        [Done (length (List.map_filter (item_output no_tables (template_dir example_files))
                         (pdf_files example_files)))]"
    by blast
  then have "stdout (main no_tables example_files) =
     [ErrorProcessing ''EXTRA_2024.pdf'' (FileNotFoundError ''EXTRA''),
      Copied ''MARZO 2023.xlsx'' ''MARZO 2024.xlsx'', NoTables ''MARZO_2024.pdf'', Done 1]"
    unfolding pdf_files_example t
    by (simp add: item_marzo item_extra item_output_def List.map_filter_simps example_files_def)
  then show ?thesis by (simp add: pdf_files_example)
qed

end
